theory Spec2Isabelle
  imports Main "HOL-Library.Sublist"
begin

section \<open>Python values, exceptions and text\<close>

text \<open>
  The scripts of the repository drive PDF reports through a remote inference service and
  carve a JSON array out of the free-text answer. This theory embeds the per-document
  pipeline of five of them (\<^verbatim>\<open>GeminiAPIExtractActions.py\<close>,
  \<^verbatim>\<open>ExtractScope123Emissions.py\<close>, \<^verbatim>\<open>GeminiAPIReport.py\<close>,
  \<^verbatim>\<open>ExtractEnergyInventoryActions.py\<close>, \<^verbatim>\<open>GHGEmissionPercentage.py\<close>).

  Python exceptions are values of \<open>exn\<close>; every constructor is a subclass of
  \<^verbatim>\<open>Exception\<close>, so \<^verbatim>\<open>except Exception\<close> catches all of them and
  \<^verbatim>\<open>except JSONDecodeError\<close> only the first. Exhaustion of the interpreter's
  resources is outside the model.
\<close>

datatype exn =
    JSONDecodeError | ValueError | SyntaxError | TypeError | AttributeError
  | UnboundLocalError | ApiError

text \<open>
  The values \<^verbatim>\<open>json.loads\<close> and \<^verbatim>\<open>ast.literal_eval\<close> return. A dict is an
  association list in insertion order. A float is carried by its literal, since no script
  computes with it before the point the model stops at. \<open>POther\<close> stands for the
  literals only \<^verbatim>\<open>literal_eval\<close> produces and \<^verbatim>\<open>json.dump\<close> rejects
  (bytes, sets, complex numbers).
\<close>

datatype pyval =
    PNone | PBool bool | PInt int | PFloat string | PStr string
  | PList "pyval list" | PTuple "pyval list" | PDict "(pyval \<times> pyval) list"
  | POther string

text \<open>
  A text is a list of characters, each a code point below 256. \<open>isspace\<close> lists the
  code points of that range that \<^verbatim>\<open>str.isspace\<close>, \<^verbatim>\<open>str.strip()\<close> and the
  regular expression class \<^verbatim>\<open>\s\<close> (on \<^verbatim>\<open>str\<close> patterns) treat as whitespace.
\<close>

definition isspace :: "char \<Rightarrow> bool" where
  "isspace c \<longleftrightarrow> c \<in> {CHR 0x09, CHR 0x0A, CHR 0x0B, CHR 0x0C, CHR 0x0D,
                    CHR 0x1C, CHR 0x1D, CHR 0x1E, CHR 0x1F, CHR 0x20, CHR 0x85, CHR 0xA0}"

definition strip :: "string \<Rightarrow> string" where
  "strip s = rev (dropWhile isspace (rev (dropWhile isspace s)))"

section \<open>The bracketed-array search\<close>

text \<open>
  \<^verbatim>\<open>re.search(r"\[\s*{.*?}\s*\]", text, re.DOTALL)\<close>, the same pattern in every script.
  The backtracking matcher tries each start position from the left. At a start position
  the greedy \<^verbatim>\<open>\s*\<close> is followed by a character that is not whitespace, so giving
  whitespace back never helps: it consumes all of it. The lazy \<^verbatim>\<open>.*?\<close> (any
  character, newlines included) grows one character at a time until the rest of the
  pattern matches.

  \<open>close_tail\<close> is \<^verbatim>\<open>\s*\]\<close>, \<open>lazy_body\<close> is \<^verbatim>\<open>.*?}\s*\]\<close>, \<open>match_at\<close> the
  whole pattern anchored at the head of its argument; each returns the matched text.
\<close>

definition close_tail :: "string \<Rightarrow> string option" where
  "close_tail s =
     (case dropWhile isspace s of
        c # _ \<Rightarrow> if c = CHR '']'' then Some (takeWhile isspace s @ '']'') else None
      | [] \<Rightarrow> None)"

fun lazy_body :: "string \<Rightarrow> string option" where
  "lazy_body [] = None"
| "lazy_body (c # cs) =
     (case (if c = CHR ''}'' then close_tail cs else None) of
        Some m \<Rightarrow> Some (c # m)
      | None \<Rightarrow> map_option ((#) c) (lazy_body cs))"

definition match_at :: "string \<Rightarrow> string option" where
  "match_at s =
     (case s of
        [] \<Rightarrow> None
      | c # cs \<Rightarrow>
          if c = CHR ''['' then
            (case dropWhile isspace cs of
               [] \<Rightarrow> None
             | b # r \<Rightarrow>
                 if b = CHR ''{'' then
                   map_option (\<lambda>m. c # takeWhile isspace cs @ b # m) (lazy_body r)
                 else None)
          else None)"

fun re_search :: "string \<Rightarrow> string option" where
  "re_search [] = None"
| "re_search (c # cs) =
     (case match_at (c # cs) of Some m \<Rightarrow> Some m | None \<Rightarrow> re_search cs)"

text \<open>
  The language of the pattern, stated declaratively: an opening bracket, whitespace, an
  opening brace, any text, a closing brace, whitespace, a closing bracket.
\<close>

definition in_pattern :: "string \<Rightarrow> bool" where
  "in_pattern m \<longleftrightarrow>
     (\<exists>ws1 body ws2. m = ''['' @ ws1 @ ''{'' @ body @ ''}'' @ ws2 @ '']''
        \<and> (\<forall>c \<in> set ws1. isspace c) \<and> (\<forall>c \<in> set ws2. isspace c))"

section \<open>Tolerant structured extraction\<close>

text \<open>
  \<^verbatim>\<open>extract_json_from_response\<close> of \<^verbatim>\<open>GeminiAPIReport.py\<close>. The two parsers are
  library functions and come as parameters: \<open>Inl\<close> is the exception raised. The first
  attempt sits under \<^verbatim>\<open>except Exception: pass\<close>; the direct parse under
  \<^verbatim>\<open>except JSONDecodeError\<close>, so any other exception leaves the function; the literal
  parse under \<^verbatim>\<open>except Exception: return None\<close>.
\<close>

definition remove_markdown :: "string \<Rightarrow> string" where
  "remove_markdown text =
     (let t1 = (if prefix ''```json'' text then drop 7 text
                else if prefix ''```'' text then drop 3 text
                else text);
          t2 = (if suffix ''```'' t1 then take (length t1 - 3) t1 else t1)
      in strip t2)"

text \<open>
  \<open>first_array\<close> is the first attempt: the value parsed from the match, if there is a
  match and it parses.
\<close>

definition first_array :: "(string \<Rightarrow> exn + pyval) \<Rightarrow> string \<Rightarrow> pyval option" where
  "first_array loads text =
     (case re_search text of
        None \<Rightarrow> None
      | Some m \<Rightarrow> (case loads m of Inr v \<Rightarrow> Some v | Inl e \<Rightarrow> None))"

definition extract_json_from_response ::
  "(string \<Rightarrow> exn + pyval) \<Rightarrow> (string \<Rightarrow> exn + pyval) \<Rightarrow> string \<Rightarrow> exn + pyval" where
  "extract_json_from_response loads literal_eval text0 =
     (let text = strip text0 in
      case first_array loads text of
        Some v \<Rightarrow> Inr v
      | None \<Rightarrow>
          (let text' = remove_markdown text in
           case loads text' of
             Inr v \<Rightarrow> Inr v
           | Inl e \<Rightarrow>
               if e = JSONDecodeError then
                 (case literal_eval text' of Inr v \<Rightarrow> Inr v | Inl e' \<Rightarrow> Inr PNone)
               else Inl e))"

section \<open>The remote service, the libraries and the trace\<close>

text \<open>
  The processing state of an uploaded file. The service's name for the state the
  specification calls pending is \<^verbatim>\<open>PROCESSING\<close>; the scripts compare
  \<^verbatim>\<open>pdf_file.state.name\<close> with \<^verbatim>\<open>"PROCESSING"\<close> and \<^verbatim>\<open>"ACTIVE"\<close> only.
\<close>

datatype file_state = PROCESSING | ACTIVE | FAILED

text \<open>
  What the remote service does for one document: the answer to the upload, to the
  \<open>k\<close>-th \<^verbatim>\<open>get_file\<close>, to the completion request (the text of the response;
  \<open>Inl\<close> when the request or the access to \<^verbatim>\<open>response.text\<close> raises) and to the
  \<open>k\<close>-th \<^verbatim>\<open>delete_file\<close> (\<open>Some e\<close> when it raises).
\<close>

record document =
  stem :: string
  upload_file :: "exn + file_state"
  get_file :: "nat \<Rightarrow> exn + file_state"
  generate_content :: "exn + string"
  delete_file :: "nat \<Rightarrow> exn option"

text \<open>
  The library calls whose outcome the scripts depend on: the two parsers,
  \<^verbatim>\<open>pd.DataFrame(data)\<close>, \<^verbatim>\<open>df.to_excel(...)\<close>, and the Word export
  (the \<^verbatim>\<open>python-docx\<close> blocks of \<^verbatim>\<open>ExtractEnergyInventoryActions.py\<close>, lines 96 to
  114, and of \<^verbatim>\<open>GeminiAPIReport.py\<close>, lines 230 to 278). Writing a text file does not
  fail in the model.
\<close>

record library =
  json_loads :: "string \<Rightarrow> exn + pyval"
  literal_eval :: "string \<Rightarrow> exn + pyval"
  data_frame :: "pyval \<Rightarrow> exn option"
  to_excel :: "pyval \<Rightarrow> exn option"
  save_docx :: "string \<Rightarrow> exn option"
  word_report :: "pyval \<Rightarrow> exn option"

datatype notice =
    ConfigError | FolderNotFound | NoPdfFiles | Processing | Uploaded | NotActive
  | NoStructuredJson | SavedRaw | SavedJson | SavedExcel | NotTabular | JsonParsingError
  | DataFrameDump | FileError | Deleted | CleanupError | NoText

datatype event =
    Upload string
  | Sleep nat
  | GetFile
  | Generate
  | Delete
  | WriteText string string
  | DumpJson string pyval
  | ToExcel string pyval
  | SaveDocx string
  | Print notice

text \<open>
  How the body of the \<^verbatim>\<open>try\<close> statement of one loop iteration ends: it runs to its
  end, leaves through \<^verbatim>\<open>continue\<close>, or raises.
\<close>

datatype outcome = Completed | Skipped | Raised exn

text \<open>
  \<^verbatim>\<open>json.dump\<close> raises \<^verbatim>\<open>TypeError\<close> on a value it cannot serialise and on a dict
  key that is not a string, a number, a boolean or \<^verbatim>\<open>None\<close>.
\<close>

fun key_ok :: "pyval \<Rightarrow> bool" where
  "key_ok (PList _) = False"
| "key_ok (PTuple _) = False"
| "key_ok (PDict _) = False"
| "key_ok (POther _) = False"
| "key_ok _ = True"

fun serialisable :: "pyval \<Rightarrow> bool" where
  "serialisable (PList xs) = list_all serialisable xs"
| "serialisable (PTuple xs) = list_all serialisable xs"
| "serialisable (PDict kvs) = list_all (\<lambda>kv. key_ok (fst kv) \<and> serialisable (snd kv)) kvs"
| "serialisable (POther _) = False"
| "serialisable _ = True"

definition json_dump :: "pyval \<Rightarrow> exn option" where
  "json_dump v = (if serialisable v then None else Some TypeError)"

section \<open>Readiness polling\<close>

text \<open>
  \<^verbatim>\<open>while pdf_file.state.name == "PROCESSING": time.sleep(5); pdf_file = genai.get_file(...)\<close>.
  \<open>k\<close> counts the queries made so far, \<open>st\<close> is the state last seen, \<open>tr\<close> the trace so
  far. The loop has no bound, so the function is partial: \<open>None\<close> is a loop that never
  returns. A query that raises ends the loop with the exception.
\<close>

partial_function (option) poll ::
  "(nat \<Rightarrow> exn + file_state) \<Rightarrow> nat \<Rightarrow> file_state \<Rightarrow> event list
     \<Rightarrow> ((exn + file_state) \<times> event list) option" where
  "poll gf k st tr =
     (if st = PROCESSING then
        (case gf k of
           Inl e \<Rightarrow> Some (Inl e, tr @ [Sleep 5, GetFile])
         | Inr st' \<Rightarrow> poll gf (Suc k) st' (tr @ [Sleep 5, GetFile]))
      else Some (Inr st, tr))"

declare poll.simps [code]

text \<open>The trace of \<open>n\<close> rounds of the loop: a sleep of five seconds, then a query.\<close>

definition polls :: "nat \<Rightarrow> event list" where
  "polls n = concat (replicate n [Sleep 5, GetFile])"

section \<open>GeminiAPIExtractActions.py and ExtractScope123Emissions.py\<close>

text \<open>
  The two scripts differ in the prompt and in the suffix of the output files
  (\<^verbatim>\<open>_energy_actions\<close>, \<^verbatim>\<open>_scope123_emissions\<close>), here the parameter \<open>sfx\<close>.
  \<open>df\<close> tells whether the local variable \<^verbatim>\<open>df\<close> of \<^verbatim>\<open>getScores\<close> is bound; it is
  assigned only by \<^verbatim>\<open>df = pd.DataFrame(data)\<close> and lives across loop iterations.
\<close>

definition tabular :: "pyval \<Rightarrow> bool" where
  \<comment> \<open>\<^verbatim>\<open>isinstance(data, list) and data and isinstance(data[0], dict)\<close>\<close>
  "tabular data =
     (case data of
        PList xs \<Rightarrow> xs \<noteq> [] \<and> (case hd xs of PDict _ \<Rightarrow> True | _ \<Rightarrow> False)
      | _ \<Rightarrow> False)"

definition raw_fallback :: "string \<Rightarrow> string \<Rightarrow> event list" where
  \<comment> \<open>the handler of the inner \<^verbatim>\<open>try\<close>: print, write \<^verbatim>\<open>raw_text\<close>, print\<close>
  "raw_fallback st raw_text =
     [Print JsonParsingError, WriteText (st @ ''_RAW.txt'') raw_text, Print SavedRaw]"

definition handle_response ::
  "library \<Rightarrow> string \<Rightarrow> string \<Rightarrow> bool \<Rightarrow> string \<Rightarrow> event list \<times> bool \<times> outcome" where
  \<comment> \<open>from \<^verbatim>\<open>raw_text = response.text.strip()\<close> to the end of the inner \<^verbatim>\<open>try\<close>\<close>
  "handle_response L sfx st df text =
     (let raw_text = strip text in
      case re_search raw_text of
        None \<Rightarrow>
          ([Print NoStructuredJson, WriteText (st @ ''_RAW.txt'') raw_text, Print SavedRaw],
           df, Skipped)
      | Some json_text \<Rightarrow>
          (case json_loads L json_text of
             Inl e \<Rightarrow> (raw_fallback st raw_text, df, Completed)
           | Inr data \<Rightarrow>
               (case json_dump data of
                  Some e \<Rightarrow> (raw_fallback st raw_text, df, Completed)
                | None \<Rightarrow>
                    (let saved = [DumpJson (st @ sfx @ ''.json'') data, Print SavedJson] in
                     if tabular data then
                       (case data_frame L data of
                          Some e \<Rightarrow> (saved @ raw_fallback st raw_text, df, Completed)
                        | None \<Rightarrow>
                            (case to_excel L data of
                               Some e \<Rightarrow> (saved @ raw_fallback st raw_text, True, Completed)
                             | None \<Rightarrow>
                                 (saved @ [ToExcel (st @ sfx @ ''.xlsx'') data, Print SavedExcel],
                                  True, Completed)))
                     else (saved @ [Print NotTabular], df, Completed)))))"

text \<open>
  The body of the outer \<^verbatim>\<open>try\<close>. The result is the trace, whether \<^verbatim>\<open>pdf_file\<close> is
  bound to a handle (it is \<^verbatim>\<open>None\<close> until the upload returns), \<open>df\<close>, and the outcome.
\<close>

definition try_body ::
  "library \<Rightarrow> string \<Rightarrow> document \<Rightarrow> bool \<Rightarrow> (event list \<times> bool \<times> bool \<times> outcome) option" where
  "try_body L sfx d df =
     (case upload_file d of
        Inl e \<Rightarrow> Some ([Upload (stem d)], False, df, Raised e)
      | Inr st0 \<Rightarrow>
          (case poll (get_file d) 0 st0 [Upload (stem d), Print Uploaded] of
             None \<Rightarrow> None
           | Some (Inl e, tr) \<Rightarrow> Some (tr, True, df, Raised e)
           | Some (Inr st, tr) \<Rightarrow>
               if st \<noteq> ACTIVE then Some (tr @ [Print NotActive], True, df, Skipped)
               else
                 (case generate_content d of
                    Inl e \<Rightarrow> Some (tr @ [Generate], True, df, Raised e)
                  | Inr text \<Rightarrow>
                      (case handle_response L sfx (stem d) df text of
                         (ev, df', oc) \<Rightarrow> Some (tr @ Generate # ev, True, df', oc)))))"

text \<open>
  \<^verbatim>\<open>except Exception as e: print(df); print(...)\<close>. Reading the unbound local \<^verbatim>\<open>df\<close>
  raises \<^verbatim>\<open>UnboundLocalError\<close> inside the handler, which nothing catches.
\<close>

definition except_handler :: "bool \<Rightarrow> exn \<Rightarrow> event list \<times> outcome" where
  "except_handler df e =
     (if df then ([Print DataFrameDump, Print FileError], Completed)
      else ([], Raised UnboundLocalError))"

text \<open>
  \<^verbatim>\<open>finally: if pdf_file and hasattr(pdf_file, 'name'): try: genai.delete_file(...) except ...\<close>.
  A file handle is truthy and has a name, so the guard is that \<^verbatim>\<open>pdf_file\<close> is bound.
  \<open>k\<close> is the number of delete calls made before.
\<close>

definition finally_cleanup :: "document \<Rightarrow> bool \<Rightarrow> nat \<Rightarrow> event list" where
  "finally_cleanup d bound k =
     (if bound then
        (case delete_file d k of
           None \<Rightarrow> [Delete, Print Deleted]
         | Some e \<Rightarrow> [Delete, Print CleanupError])
      else [])"

definition process_document ::
  "library \<Rightarrow> string \<Rightarrow> document \<Rightarrow> bool \<Rightarrow> (event list \<times> bool \<times> outcome) option" where
  "process_document L sfx d df =
     (case try_body L sfx d df of
        None \<Rightarrow> None
      | Some (tr, bound, df', oc) \<Rightarrow>
          (case (case oc of Raised e \<Rightarrow> except_handler df' e | _ \<Rightarrow> ([], oc)) of
             (tr2, oc2) \<Rightarrow> Some (tr @ tr2 @ finally_cleanup d bound 0, df', oc2)))"

text \<open>
  The \<^verbatim>\<open>for\<close> loop over the PDF files and \<^verbatim>\<open>getScores\<close> around it. An exception
  that leaves an iteration leaves the loop and the function: the result carries it, and
  the remaining documents are not touched.
\<close>

fun run_batch ::
  "library \<Rightarrow> string \<Rightarrow> document list \<Rightarrow> bool \<Rightarrow> event list \<Rightarrow> (event list \<times> exn option) option" where
  "run_batch L sfx [] df tr = Some (tr, None)"
| "run_batch L sfx (d # ds) df tr =
     (case process_document L sfx d df of
        None \<Rightarrow> None
      | Some (ev, df', oc) \<Rightarrow>
          (case oc of
             Raised e \<Rightarrow> Some (tr @ Print Processing # ev, Some e)
           | _ \<Rightarrow> run_batch L sfx ds df' (tr @ Print Processing # ev)))"

record run_config =
  configure :: "exn option"
  is_dir :: bool
  pdf_files :: "document list"

definition getScores ::
  "library \<Rightarrow> string \<Rightarrow> run_config \<Rightarrow> (event list \<times> exn option) option" where
  "getScores L sfx cfg =
     (case configure cfg of
        Some e \<Rightarrow> Some ([Print ConfigError], None)
      | None \<Rightarrow>
          if \<not> is_dir cfg then Some ([Print FolderNotFound], None)
          else if pdf_files cfg = [] then Some ([Print NoPdfFiles], None)
          else run_batch L sfx (pdf_files cfg) False [])"

section \<open>GeminiAPIReport.py\<close>

text \<open>
  One iteration of the loop of \<^verbatim>\<open>getScores\<close>, lines 196 to 289. The branch for a file
  that is not active calls \<^verbatim>\<open>genai.delete_file\<close> itself, outside any inner
  \<^verbatim>\<open>try\<close>, before \<^verbatim>\<open>continue\<close>. The third component of the result counts the
  delete calls the body made. The Word export and the row appended to
  \<^verbatim>\<open>summary_data\<close> (lines 230 to 278) are the library call \<open>word_report\<close>, which
  completes or raises.
\<close>

definition report_response :: "library \<Rightarrow> string \<Rightarrow> string \<Rightarrow> event list \<times> outcome" where
  \<comment> \<open>from \<^verbatim>\<open>raw_text = response.text.strip() if response.text else ""\<close> to the end of the body\<close>
  "report_response L st text =
     (let raw_text = (if text \<noteq> [] then strip text else []) in
      case extract_json_from_response (json_loads L) (literal_eval L) raw_text of
        Inl e \<Rightarrow> ([], Raised e)
      | Inr analysis_data \<Rightarrow>
          if analysis_data = PNone then
            ([Print JsonParsingError, WriteText (st @ ''_analysis.json'') raw_text], Skipped)
          else
            (case json_dump analysis_data of
               Some e \<Rightarrow> ([], Raised e)
             | None \<Rightarrow>
                 (let saved = [DumpJson (st @ ''_analysis.json'') analysis_data, Print SavedJson] in
                  case analysis_data of
                    PList items \<Rightarrow>
                      (case word_report L analysis_data of
                         Some e \<Rightarrow> (saved, Raised e)
                       | None \<Rightarrow> (saved @ [SaveDocx (st @ ''_analysis.docx'')], Completed))
                  | _ \<Rightarrow> (saved @ [Print NotTabular], Completed))))"

definition report_try_body ::
  "library \<Rightarrow> document \<Rightarrow> (event list \<times> bool \<times> nat \<times> outcome) option" where
  "report_try_body L d =
     (case upload_file d of
        Inl e \<Rightarrow> Some ([Upload (stem d)], False, 0, Raised e)
      | Inr st0 \<Rightarrow>
          (case poll (get_file d) 0 st0 [Upload (stem d), Print Uploaded] of
             None \<Rightarrow> None
           | Some (Inl e, tr) \<Rightarrow> Some (tr, True, 0, Raised e)
           | Some (Inr st, tr) \<Rightarrow>
               if st \<noteq> ACTIVE then
                 (case delete_file d 0 of
                    Some e \<Rightarrow> Some (tr @ [Print NotActive, Delete], True, 1, Raised e)
                  | None \<Rightarrow> Some (tr @ [Print NotActive, Delete], True, 1, Skipped))
               else
                 (case generate_content d of
                    Inl e \<Rightarrow> Some (tr @ [Generate], True, 0, Raised e)
                  | Inr text \<Rightarrow>
                      (case report_response L (stem d) text of
                         (ev, oc) \<Rightarrow> Some (tr @ Generate # ev, True, 0, oc)))))"

definition report_document :: "library \<Rightarrow> document \<Rightarrow> (event list \<times> outcome) option" where
  \<comment> \<open>the handler \<^verbatim>\<open>except Exception as e: print(...)\<close>, then the \<^verbatim>\<open>finally\<close> block\<close>
  "report_document L d =
     (case report_try_body L d of
        None \<Rightarrow> None
      | Some (tr, bound, k, oc) \<Rightarrow>
          (case (case oc of Raised e \<Rightarrow> ([Print FileError], Completed) | _ \<Rightarrow> ([], oc)) of
             (tr2, oc2) \<Rightarrow> Some (tr @ tr2 @ finally_cleanup d bound k, oc2)))"

section \<open>ExtractEnergyInventoryActions.py\<close>

text \<open>
  One iteration of the loop of \<^verbatim>\<open>getScores\<close>, lines 70 to 129. The branch for a file
  that is not active deletes the file under its own \<^verbatim>\<open>try\<close> before
  \<^verbatim>\<open>continue\<close>; the \<^verbatim>\<open>finally\<close> block is the one of the other scripts.
\<close>

definition energy_try_body ::
  "library \<Rightarrow> document \<Rightarrow> (event list \<times> bool \<times> nat \<times> outcome) option" where
  "energy_try_body L d =
     (case upload_file d of
        Inl e \<Rightarrow> Some ([Upload (stem d)], False, 0, Raised e)
      | Inr st0 \<Rightarrow>
          (case poll (get_file d) 0 st0 [Upload (stem d), Print Uploaded] of
             None \<Rightarrow> None
           | Some (Inl e, tr) \<Rightarrow> Some (tr, True, 0, Raised e)
           | Some (Inr st, tr) \<Rightarrow>
               if st \<noteq> ACTIVE then
                 Some (tr @ Print NotActive #
                         (case delete_file d 0 of
                            None \<Rightarrow> [Delete, Print Deleted]
                          | Some e \<Rightarrow> [Delete, Print CleanupError]),
                       True, 1, Skipped)
               else
                 (case generate_content d of
                    Inl e \<Rightarrow> Some (tr @ [Generate], True, 0, Raised e)
                  | Inr text \<Rightarrow>
                      if text \<noteq> [] then
                        (case save_docx L text of
                           Some e \<Rightarrow> Some (tr @ [Generate], True, 0, Raised e)
                         | None \<Rightarrow>
                             Some (tr @ [Generate, SaveDocx (stem d @ ''_analysis.docx'')],
                                   True, 0, Completed))
                      else Some (tr @ [Generate, Print NoText], True, 0, Completed))))"

definition energy_document :: "library \<Rightarrow> document \<Rightarrow> (event list \<times> outcome) option" where
  "energy_document L d =
     (case energy_try_body L d of
        None \<Rightarrow> None
      | Some (tr, bound, k, oc) \<Rightarrow>
          (case (case oc of Raised e \<Rightarrow> ([Print FileError], Completed) | _ \<Rightarrow> ([], oc)) of
             (tr2, oc2) \<Rightarrow> Some (tr @ tr2 @ finally_cleanup d bound k, oc2)))"

section \<open>GHGEmissionPercentage.py\<close>

text \<open>
  One iteration of the loop of \<^verbatim>\<open>extract_ghg_percentages\<close>, lines 58 to 87. There is
  no \<^verbatim>\<open>finally\<close> block: the only \<^verbatim>\<open>genai.delete_file\<close> is the last statement of
  the \<^verbatim>\<open>try\<close> body. \<open>all_data\<close> is the list the records are appended to.

  \<open>py_iter\<close> is iteration over a value, \<open>contains_sector\<close> is \<^verbatim>\<open>"Sector" in item\<close>,
  \<open>ghg_items\<close> the \<^verbatim>\<open>for item in extracted\<close> loop; it stops at the first exception and
  keeps what it appended before.
\<close>

fun py_iter :: "pyval \<Rightarrow> exn + pyval list" where
  "py_iter (PList xs) = Inr xs"
| "py_iter (PTuple xs) = Inr xs"
| "py_iter (PDict kvs) = Inr (map fst kvs)"
| "py_iter (PStr s) = Inr (map (\<lambda>c. PStr [c]) s)"
| "py_iter _ = Inl TypeError"

fun contains_sector :: "pyval \<Rightarrow> exn + bool" where
  "contains_sector (PDict kvs) = Inr (PStr ''Sector'' \<in> set (map fst kvs))"
| "contains_sector (PList xs) = Inr (PStr ''Sector'' \<in> set xs)"
| "contains_sector (PTuple xs) = Inr (PStr ''Sector'' \<in> set xs)"
| "contains_sector (PStr s) = Inr (sublist ''Sector'' s)"
| "contains_sector _ = Inl TypeError"

fun ghg_items :: "string \<Rightarrow> pyval list \<Rightarrow> pyval list \<Rightarrow> pyval list \<times> exn option" where
  "ghg_items name [] all_data = (all_data, None)"
| "ghg_items name (item # rest) all_data =
     (case contains_sector item of
        Inl e \<Rightarrow> (all_data, Some e)
      | Inr False \<Rightarrow> ghg_items name rest all_data
      | Inr True \<Rightarrow>
          (case item of
             PDict kvs \<Rightarrow>
               ghg_items name rest
                 (all_data @
                    [PDict (if PStr ''Document Name'' \<in> set (map fst kvs) then kvs
                            else kvs @ [(PStr ''Document Name'', PStr name)])])
           | _ \<Rightarrow> (all_data, Some AttributeError)))"

definition ghg_response ::
  "library \<Rightarrow> string \<Rightarrow> string \<Rightarrow> pyval list \<Rightarrow> event list \<times> pyval list" where
  \<comment> \<open>from \<^verbatim>\<open>raw_text = response.text.strip()\<close> to the end of the inner \<^verbatim>\<open>try\<close>\<close>
  "ghg_response L st text all_data =
     (case re_search (strip text) of
        None \<Rightarrow> ([], all_data)
      | Some json_block \<Rightarrow>
          (case json_loads L json_block of
             Inl e \<Rightarrow> ([Print JsonParsingError], all_data)
           | Inr extracted \<Rightarrow>
               (case py_iter extracted of
                  Inl e \<Rightarrow> ([Print JsonParsingError], all_data)
                | Inr items \<Rightarrow>
                    (case ghg_items (st @ ''.pdf'') items all_data of
                       (all', None) \<Rightarrow> ([], all')
                     | (all', Some e) \<Rightarrow> ([Print JsonParsingError], all')))))"

definition ghg_document ::
  "library \<Rightarrow> document \<Rightarrow> pyval list \<Rightarrow> (event list \<times> pyval list) option" where
  "ghg_document L d all_data =
     (case upload_file d of
        Inl e \<Rightarrow> Some ([Upload (stem d), Print FileError], all_data)
      | Inr st0 \<Rightarrow>
          (case poll (get_file d) 0 st0 [Upload (stem d)] of
             None \<Rightarrow> None
           | Some (Inl e, tr) \<Rightarrow> Some (tr @ [Print FileError], all_data)
           | Some (Inr st, tr) \<Rightarrow>
               if st \<noteq> ACTIVE then Some (tr @ [Print Processing], all_data)
               else
                 (case generate_content d of
                    Inl e \<Rightarrow> Some (tr @ [Print Processing, Generate, Print FileError], all_data)
                  | Inr text \<Rightarrow>
                      (case ghg_response L (stem d) text all_data of
                         (ev, all') \<Rightarrow>
                           Some (tr @ [Print Processing, Generate] @ ev @
                                   (case delete_file d 0 of
                                      None \<Rightarrow> [Delete]
                                    | Some e \<Rightarrow> [Delete, Print FileError]),
                                 all')))))"

section \<open>Concrete libraries and documents\<close>

text \<open>
  Concrete inputs on which the model is evaluated. A parser given by a table agrees with
  the Python function on every text it is applied to in this theory: a listed text
  parses to the listed value, and every other text that is queried is malformed
  (\<^verbatim>\<open>json.loads\<close> raises \<^verbatim>\<open>JSONDecodeError\<close>; \<^verbatim>\<open>literal_eval\<close> raises
  \<^verbatim>\<open>ValueError\<close> or \<^verbatim>\<open>SyntaxError\<close>, which no handler tells apart).
  \<open>mock_library\<close> is a test double whose \<^verbatim>\<open>json.loads\<close> returns a fixed value;
  it reaches the branch for a value that is not a list of dicts, which Python's parser
  cannot reach from a text matched by the pattern, since such a text starts with
  \<^verbatim>\<open>[{\<close>.
\<close>

definition table_parser :: "exn \<Rightarrow> (string \<times> pyval) list \<Rightarrow> string \<Rightarrow> exn + pyval" where
  "table_parser err tbl s = (case map_of tbl s of Some v \<Rightarrow> Inr v | None \<Rightarrow> Inl err)"

definition demo_library :: library where
  "demo_library =
     \<lparr> json_loads = table_parser JSONDecodeError
         [(''[{}]'', PList [PDict []]), (''[ {} , {} ]'', PList [PDict [], PDict []]),
          (''7'', PInt 7)],
       literal_eval = table_parser ValueError [(''(1, 2)'', PTuple [PInt 1, PInt 2])],
       data_frame = (\<lambda>v. None), to_excel = (\<lambda>v. None),
       save_docx = (\<lambda>t. None), word_report = (\<lambda>v. None) \<rparr>"

definition doc_ready :: document where
  "doc_ready =
     \<lparr> stem = ''A'', upload_file = Inr PROCESSING,
       get_file = (\<lambda>k. if k < 2 then Inr PROCESSING else Inr ACTIVE),
       generate_content = Inr ''[{}]'', delete_file = (\<lambda>k. None) \<rparr>"

definition doc_upload_fails :: document where
  "doc_upload_fails =
     \<lparr> stem = ''B'', upload_file = Inl ApiError, get_file = (\<lambda>k. Inr ACTIVE),
       generate_content = Inr ''[{}]'', delete_file = (\<lambda>k. None) \<rparr>"

definition doc_failed :: document where
  "doc_failed =
     \<lparr> stem = ''C'', upload_file = Inr PROCESSING, get_file = (\<lambda>k. Inr FAILED),
       generate_content = Inr ''[{}]'',
       delete_file = (\<lambda>k. if k = 0 then None else Some ApiError) \<rparr>"

definition mock_library :: "pyval \<Rightarrow> library" where
  "mock_library v =
     \<lparr> json_loads = (\<lambda>s. Inr v), literal_eval = (\<lambda>s. Inl ValueError),
       data_frame = (\<lambda>v. None), to_excel = (\<lambda>v. None),
       save_docx = (\<lambda>t. None), word_report = (\<lambda>v. None) \<rparr>"

text \<open>
  \<open>quoted_array\<close> is the JSON text of the array of one object whose key \<^verbatim>\<open>a\<close> has
  as value the string made of a closing brace and a closing bracket; \<open>CHR 0x22\<close> is the
  double quote. \<open>digit_limit_library\<close> answers the text of 4301 digits as Python's
  \<^verbatim>\<open>json.loads\<close> does, with \<^verbatim>\<open>ValueError\<close>: an integer of more than 4300
  digits is refused.
\<close>

definition quoted_array :: string where
  "quoted_array =
     ''[{'' @ [CHR 0x22] @ ''a'' @ [CHR 0x22] @ '': '' @ [CHR 0x22] @ ''}]'' @ [CHR 0x22] @ ''}]''"

definition array_library :: library where
  "array_library =
     \<lparr> json_loads = table_parser JSONDecodeError
         [(quoted_array, PList [PDict [(PStr ''a'', PStr ''}]'')]]),
          (''[ {} , {} ]'', PList [PDict [], PDict []])],
       literal_eval = table_parser ValueError [],
       data_frame = (\<lambda>v. None), to_excel = (\<lambda>v. None),
       save_docx = (\<lambda>t. None), word_report = (\<lambda>v. None) \<rparr>"

definition digit_limit_library :: library where
  "digit_limit_library =
     \<lparr> json_loads = (\<lambda>s. if s = replicate 4301 CHR ''1'' then Inl ValueError
                         else Inl JSONDecodeError),
       literal_eval = (\<lambda>s. Inl SyntaxError),
       data_frame = (\<lambda>v. None), to_excel = (\<lambda>v. None),
       save_docx = (\<lambda>t. None), word_report = (\<lambda>v. None) \<rparr>"

definition doc_query_fails :: document where
  "doc_query_fails =
     \<lparr> stem = ''D'', upload_file = Inr PROCESSING, get_file = (\<lambda>k. Inl ApiError),
       generate_content = Inr ''[{}]'', delete_file = (\<lambda>k. None) \<rparr>"

definition doc_completion_fails :: document where
  "doc_completion_fails =
     \<lparr> stem = ''E'', upload_file = Inr ACTIVE, get_file = (\<lambda>k. Inr ACTIVE),
       generate_content = Inl ApiError, delete_file = (\<lambda>k. None) \<rparr>"

section \<open>Properties of the polling loop\<close>

lemma poll_stop: "st \<noteq> PROCESSING \<Longrightarrow> poll gf k st tr = Some (Inr st, tr)"
  by (subst poll.simps) simp

lemma polls_Suc: "polls (Suc n) = [Sleep 5, GetFile] @ polls n"
  by (simp add: polls_def)

lemma poll_run:
  "(\<forall>i<n. gf (k + i) = Inr PROCESSING) \<Longrightarrow> gf (k + n) \<noteq> Inr PROCESSING \<Longrightarrow>
   poll gf k PROCESSING tr = Some (gf (k + n), tr @ polls (Suc n))"
proof (induction n arbitrary: k tr)
  case 0
  then show ?case
    by (subst poll.simps) (auto simp: polls_def poll_stop split: sum.splits)
next
  case (Suc n)
  have h0: "gf k = Inr PROCESSING" using Suc.prems(1)[rule_format, of 0] by simp
  have h1: "\<forall>i<n. gf (Suc k + i) = Inr PROCESSING"
    using Suc.prems(1) by auto
  have h2: "gf (Suc k + n) \<noteq> Inr PROCESSING" using Suc.prems(2) by simp
  have "poll gf k PROCESSING tr = poll gf (Suc k) PROCESSING (tr @ [Sleep 5, GetFile])"
    by (subst poll.simps) (simp add: h0)
  also have "\<dots> = Some (gf (Suc k + n), (tr @ [Sleep 5, GetFile]) @ polls (Suc n))"
    by (rule Suc.IH[OF h1 h2])
  finally show ?case by (simp add: polls_def)
qed

lemma poll_Some:
  assumes "poll gf k st tr = Some y"
  shows "(\<exists>n. snd y = tr @ polls n) \<and> fst y \<noteq> Inr PROCESSING
           \<and> (st \<noteq> PROCESSING \<or> (\<exists>i. gf i \<noteq> Inr PROCESSING))"
proof (rule poll.raw_induct
    [where P = "\<lambda>gf k st tr y. (\<exists>n. snd y = tr @ polls n) \<and> fst y \<noteq> Inr PROCESSING
           \<and> (st \<noteq> PROCESSING \<or> (\<exists>i. gf i \<noteq> Inr PROCESSING))", OF _ assms])
  fix f :: "(nat \<Rightarrow> exn + file_state) \<Rightarrow> nat \<Rightarrow> file_state \<Rightarrow> event list
     \<Rightarrow> ((exn + file_state) \<times> event list) option"
  fix gf k st tr y
  assume IH: "\<And>gf k st tr y. f gf k st tr = Some y \<Longrightarrow>
     (\<exists>n. snd y = tr @ polls n) \<and> fst y \<noteq> Inr PROCESSING
           \<and> (st \<noteq> PROCESSING \<or> (\<exists>i. gf i \<noteq> Inr PROCESSING))"
  assume body: "(if st = PROCESSING then
        (case gf k of
           Inl e \<Rightarrow> Some (Inl e, tr @ [Sleep 5, GetFile])
         | Inr st' \<Rightarrow> f gf (Suc k) st' (tr @ [Sleep 5, GetFile]))
      else Some (Inr st, tr)) = Some y"
  show "(\<exists>n. snd y = tr @ polls n) \<and> fst y \<noteq> Inr PROCESSING
           \<and> (st \<noteq> PROCESSING \<or> (\<exists>i. gf i \<noteq> Inr PROCESSING))"
  proof (cases "st = PROCESSING")
    case False
    with body have "y = (Inr st, tr)" by simp
    then have "snd y = tr @ polls 0" "fst y \<noteq> Inr PROCESSING"
      using False by (simp_all add: polls_def)
    then show ?thesis using False by blast
  next
    case True
    show ?thesis
    proof (cases "gf k")
      case (Inl e)
      with True body have "y = (Inl e, tr @ [Sleep 5, GetFile])" by simp
      then have "snd y = tr @ polls 1" "fst y \<noteq> Inr PROCESSING"
        by (simp_all add: polls_def)
      moreover have "\<exists>i. gf i \<noteq> Inr PROCESSING" using Inl by (metis sum.distinct(1))
      ultimately show ?thesis by blast
    next
      case (Inr st')
      with True body have "f gf (Suc k) st' (tr @ [Sleep 5, GetFile]) = Some y" by simp
      from IH[OF this] obtain n where
        n: "snd y = (tr @ [Sleep 5, GetFile]) @ polls n" and
        r: "fst y \<noteq> Inr PROCESSING" and
        l: "st' \<noteq> PROCESSING \<or> (\<exists>i. gf i \<noteq> Inr PROCESSING)" by blast
      from n have "snd y = tr @ polls (Suc n)" by (simp add: polls_def)
      moreover from l Inr have "\<exists>i. gf i \<noteq> Inr PROCESSING"
        by (metis sum.inject(2))
      ultimately show ?thesis using r by blast
    qed
  qed
qed

lemma poll_forever:
  "(\<forall>i. gf i = Inr PROCESSING) \<Longrightarrow> poll gf k PROCESSING tr = None"
  using poll_Some[of gf k PROCESSING tr] by (cases "poll gf k PROCESSING tr") auto

lemma poll_trace: "poll gf k st tr = Some (r, tr') \<Longrightarrow> \<exists>n. tr' = tr @ polls n"
  using poll_Some[of gf k st tr "(r, tr')"] by simp

lemma poll_result: "poll gf k st tr = Some (r, tr') \<Longrightarrow> r \<noteq> Inr PROCESSING"
  using poll_Some[of gf k st tr "(r, tr')"] by simp

lemma count_polls [simp]: "count_list (polls n) Delete = 0" "count_list (polls n) Generate = 0"
  by (induction n) (simp_all add: polls_def)

lemma poll_terminates:
  assumes "\<exists>n. gf n \<noteq> Inr PROCESSING"
  shows "\<exists>n. (\<forall>i<n. gf i = Inr PROCESSING) \<and> gf n \<noteq> Inr PROCESSING \<and>
     poll gf 0 PROCESSING tr = Some (gf n, tr @ polls (Suc n))"
proof -
  define n where "n = (LEAST n. gf n \<noteq> Inr PROCESSING)"
  have a: "gf n \<noteq> Inr PROCESSING" unfolding n_def using assms by (metis (mono_tags, lifting) LeastI)
  have b: "\<forall>i<n. gf i = Inr PROCESSING" unfolding n_def using not_less_Least by blast
  from poll_run[of n gf 0 tr] a b show ?thesis by auto
qed

text \<open>
  C8. The loop sleeps five seconds before every query and ends exactly when the state
  leaves \<^verbatim>\<open>PROCESSING\<close>: with a state that is not \<^verbatim>\<open>PROCESSING\<close> at the start it
  returns at once without a query; when some query does not answer \<^verbatim>\<open>PROCESSING\<close>
  it returns at the first such query \<open>n\<close>, after \<open>n + 1\<close> rounds of sleep and query;
  when every query answers \<^verbatim>\<open>PROCESSING\<close> it never returns.
\<close>

theorem poll_ends_exactly_when_state_leaves_processing:
  "(st0 \<noteq> PROCESSING \<longrightarrow> poll gf 0 st0 tr = Some (Inr st0, tr))
   \<and> ((\<exists>n. gf n \<noteq> Inr PROCESSING) \<longrightarrow>
        (\<exists>n. (\<forall>i<n. gf i = Inr PROCESSING) \<and> gf n \<noteq> Inr PROCESSING
           \<and> poll gf 0 PROCESSING tr = Some (gf n, tr @ polls (Suc n))))
   \<and> ((\<forall>n. gf n = Inr PROCESSING) \<longrightarrow> poll gf 0 PROCESSING tr = None)"
  using poll_stop[of st0 gf 0 tr] poll_terminates[of gf tr] poll_forever[of gf 0 tr]
  by blast

theorem poll_ends_exactly_when_state_leaves_processing_witness:
  "poll (\<lambda>k. Inr FAILED) 0 ACTIVE [] = Some (Inr ACTIVE, [])
   \<and> poll (\<lambda>k. if k < 2 then Inr PROCESSING else Inr ACTIVE) 0 PROCESSING []
       = Some (Inr ACTIVE, [Sleep 5, GetFile, Sleep 5, GetFile, Sleep 5, GetFile])
   \<and> poll (\<lambda>k. Inr PROCESSING) 0 PROCESSING [] = None"
proof -
  let ?gf = "\<lambda>k::nat. if k < 2 then Inr PROCESSING else (Inr ACTIVE :: exn + file_state)"
  have a: "poll (\<lambda>k. Inr FAILED) 0 ACTIVE [] = Some (Inr ACTIVE, [])"
    using poll_ends_exactly_when_state_leaves_processing[of ACTIVE "\<lambda>k. Inr FAILED" "[]"]
    by simp
  have "\<exists>n. ?gf n \<noteq> Inr PROCESSING" by (rule exI[of _ 2]) simp
  with poll_ends_exactly_when_state_leaves_processing[of ACTIVE ?gf "[]"]
  obtain n where n1: "\<forall>i<n. ?gf i = Inr PROCESSING" and n2: "?gf n \<noteq> Inr PROCESSING"
    and n3: "poll ?gf 0 PROCESSING [] = Some (?gf n, [] @ polls (Suc n))" by blast
  from n2 have "2 \<le> n" by (simp split: if_splits)
  moreover have "n \<le> 2"
  proof (rule ccontr)
    assume "\<not> n \<le> 2"
    then have "2 < n" by simp
    with n1 have "?gf 2 = Inr PROCESSING" by blast
    then show False by simp
  qed
  ultimately have "n = 2" by simp
  with n3 have b: "poll ?gf 0 PROCESSING []
       = Some (Inr ACTIVE, [Sleep 5, GetFile, Sleep 5, GetFile, Sleep 5, GetFile])"
    by (simp add: polls_def numeral_3_eq_3)
  have c: "poll (\<lambda>k. Inr PROCESSING) 0 PROCESSING [] = None"
    using poll_ends_exactly_when_state_leaves_processing[of ACTIVE "\<lambda>k. Inr PROCESSING" "[]"]
    by simp
  from a b c show ?thesis by blast
qed

section \<open>Properties of the bracketed-array search\<close>

lemma not_space [simp]:
  "\<not> isspace CHR '']''" "\<not> isspace CHR ''[''" "\<not> isspace CHR ''{''" "\<not> isspace CHR ''}''"
  by (simp_all add: isspace_def)

lemma dropWhile_space_append:
  "\<forall>c \<in> set ws. isspace c \<Longrightarrow> \<not> isspace x \<Longrightarrow> dropWhile isspace (ws @ x # r) = x # r"
  by (simp add: dropWhile_append3)

lemma takeWhile_space_append:
  "\<forall>c \<in> set ws. isspace c \<Longrightarrow> \<not> isspace x \<Longrightarrow> takeWhile isspace (ws @ x # r) = ws"
  by (induction ws) auto

lemma close_tail_Some:
  "close_tail s = Some m \<longleftrightarrow>
     (\<exists>ws rest. s = ws @ CHR '']'' # rest \<and> (\<forall>c \<in> set ws. isspace c) \<and> m = ws @ '']'')"
proof
  assume a: "close_tail s = Some m"
  then obtain rest where d: "dropWhile isspace s = CHR '']'' # rest"
    by (auto simp: close_tail_def split: list.splits if_splits)
  with a have m: "m = takeWhile isspace s @ '']''" by (simp add: close_tail_def)
  have "s = takeWhile isspace s @ CHR '']'' # rest"
    using d takeWhile_dropWhile_id[of isspace s] by simp
  moreover have "\<forall>c \<in> set (takeWhile isspace s). isspace c"
    by (meson set_takeWhileD)
  ultimately show "\<exists>ws rest. s = ws @ CHR '']'' # rest \<and> (\<forall>c \<in> set ws. isspace c) \<and> m = ws @ '']''"
    using m by blast
next
  assume "\<exists>ws rest. s = ws @ CHR '']'' # rest \<and> (\<forall>c \<in> set ws. isspace c) \<and> m = ws @ '']''"
  then show "close_tail s = Some m"
    by (auto simp: close_tail_def dropWhile_space_append takeWhile_space_append)
qed

lemma close_tail_None:
  "\<forall>c \<in> set ws. isspace c \<Longrightarrow> x \<noteq> CHR '']'' \<Longrightarrow> \<not> isspace x \<Longrightarrow> close_tail (ws @ x # r) = None"
  by (simp add: close_tail_def dropWhile_space_append)

lemma lazy_body_sound:
  "lazy_body s = Some m \<Longrightarrow>
     \<exists>body ws rest. s = body @ CHR ''}'' # ws @ CHR '']'' # rest
        \<and> (\<forall>c \<in> set ws. isspace c) \<and> m = body @ CHR ''}'' # ws @ '']''"
proof (induction s arbitrary: m)
  case Nil
  then show ?case by simp
next
  case (Cons c cs)
  show ?case
  proof (cases "c = CHR ''}'' \<and> close_tail cs \<noteq> None")
    case True
    then obtain m' where m': "close_tail cs = Some m'" by auto
    with True Cons.prems have m: "m = c # m'" by simp
    from m' obtain ws rest where "cs = ws @ CHR '']'' # rest" "\<forall>c \<in> set ws. isspace c" "m' = ws @ '']''"
      unfolding close_tail_Some by blast
    with m True have "c # cs = [] @ CHR ''}'' # ws @ CHR '']'' # rest \<and> (\<forall>c \<in> set ws. isspace c)
        \<and> m = [] @ CHR ''}'' # ws @ '']''" by simp
    then show ?thesis by blast
  next
    case False
    with Cons.prems obtain m' where m': "lazy_body cs = Some m'" and m: "m = c # m'"
      by (auto split: if_splits option.splits)
    from Cons.IH[OF m'] obtain body ws rest where
      "cs = body @ CHR ''}'' # ws @ CHR '']'' # rest" "\<forall>c \<in> set ws. isspace c"
      "m' = body @ CHR ''}'' # ws @ '']''" by blast
    with m have "c # cs = (c # body) @ CHR ''}'' # ws @ CHR '']'' # rest \<and> (\<forall>c \<in> set ws. isspace c)
        \<and> m = (c # body) @ CHR ''}'' # ws @ '']''" by simp
    then show ?thesis by blast
  qed
qed

lemma lazy_body_complete:
  "\<forall>c \<in> set ws. isspace c \<Longrightarrow>
   \<exists>m. lazy_body (body @ CHR ''}'' # ws @ CHR '']'' # rest) = Some m
        \<and> length m \<le> length body + length ws + 2"
proof (induction body)
  case Nil
  have "close_tail (ws @ CHR '']'' # rest) = Some (ws @ '']'')"
    using Nil unfolding close_tail_Some by blast
  then show ?case by simp
next
  case (Cons c body)
  from Cons.IH[OF Cons.prems] obtain m where
    m: "lazy_body (body @ CHR ''}'' # ws @ CHR '']'' # rest) = Some m"
       "length m \<le> length body + length ws + 2" by blast
  show ?case
  proof (cases "c = CHR ''}'' \<and> close_tail (body @ CHR ''}'' # ws @ CHR '']'' # rest) \<noteq> None")
    case True
    then obtain m' where m': "close_tail (body @ CHR ''}'' # ws @ CHR '']'' # rest) = Some m'" by auto
    then obtain ws' rest' where e: "body @ CHR ''}'' # ws @ CHR '']'' # rest = ws' @ CHR '']'' # rest'"
      "\<forall>c \<in> set ws'. isspace c" "m' = ws' @ '']''"
      unfolding close_tail_Some by blast
    have "length ws' \<le> length body"
    proof (rule ccontr)
      assume "\<not> length ws' \<le> length body"
      then have "length body < length ws'" by simp
      then have "ws' ! length body = (body @ CHR ''}'' # ws @ CHR '']'' # rest) ! length body"
        using e(1) by (metis nth_append)
      then have "ws' ! length body = CHR ''}''" by simp
      moreover have "isspace (ws' ! length body)" using e(2) \<open>length body < length ws'\<close> by simp
      ultimately show False by simp
    qed
    with True m' e(3) show ?thesis by simp
  next
    case False
    with m show ?thesis by (auto split: option.splits)
  qed
qed

lemma lazy_body_whole:
  assumes "\<forall>c \<in> set ws. isspace c"
    and "\<not> (\<exists>p w r. (\<forall>c \<in> set w. isspace c) \<and> body = p @ CHR ''}'' # w @ CHR '']'' # r)"
  shows "lazy_body (body @ CHR ''}'' # ws @ CHR '']'' # rest) = Some (body @ CHR ''}'' # ws @ '']'')"
  using assms(2)
proof (induction body)
  case Nil
  have "close_tail (ws @ CHR '']'' # rest) = Some (ws @ '']'')"
    using assms(1) unfolding close_tail_Some by blast
  then show ?case by simp
next
  case (Cons c body)
  have C': "\<not> (\<exists>p w r. (\<forall>c \<in> set w. isspace c) \<and> body = p @ CHR ''}'' # w @ CHR '']'' # r)"
  proof
    assume "\<exists>p w r. (\<forall>c \<in> set w. isspace c) \<and> body = p @ CHR ''}'' # w @ CHR '']'' # r"
    then obtain p w r where "\<forall>c \<in> set w. isspace c" "body = p @ CHR ''}'' # w @ CHR '']'' # r"
      by blast
    then have "(\<forall>c \<in> set w. isspace c) \<and> c # body = (c # p) @ CHR ''}'' # w @ CHR '']'' # r"
      by simp
    with Cons.prems show False by blast
  qed
  have ih: "lazy_body (body @ CHR ''}'' # ws @ CHR '']'' # rest) = Some (body @ CHR ''}'' # ws @ '']'')"
    using Cons.IH[OF C'] .
  have n: "c = CHR ''}'' \<Longrightarrow> close_tail (body @ CHR ''}'' # ws @ CHR '']'' # rest) = None"
  proof (rule ccontr)
    assume c: "c = CHR ''}''" and "close_tail (body @ CHR ''}'' # ws @ CHR '']'' # rest) \<noteq> None"
    then obtain m where "close_tail (body @ CHR ''}'' # ws @ CHR '']'' # rest) = Some m" by auto
    then obtain w r where e: "body @ CHR ''}'' # ws @ CHR '']'' # rest = w @ CHR '']'' # r"
      and w: "\<forall>c \<in> set w. isspace c" unfolding close_tail_Some by blast
    from e obtain us where
      "(body = w @ us \<and> us @ CHR ''}'' # ws @ CHR '']'' # rest = CHR '']'' # r)
       \<or> (body @ us = w \<and> CHR ''}'' # ws @ CHR '']'' # rest = us @ CHR '']'' # r)"
      unfolding append_eq_append_conv2 by blast
    then show False
    proof
      assume a: "body = w @ us \<and> us @ CHR ''}'' # ws @ CHR '']'' # rest = CHR '']'' # r"
      then obtain us' where "us = CHR '']'' # us'" by (cases us) auto
      with a have "(\<forall>c \<in> set w. isspace c) \<and> c # body = [] @ CHR ''}'' # w @ CHR '']'' # us'"
        using w c by simp
      with Cons.prems show False by blast
    next
      assume a: "body @ us = w \<and> CHR ''}'' # ws @ CHR '']'' # rest = us @ CHR '']'' # r"
      then obtain us' where "us = CHR ''}'' # us'" by (cases us) auto
      with a have "CHR ''}'' \<in> set w" by auto
      with w show False by auto
    qed
  qed
  show ?case
  proof (cases "c = CHR ''}''")
    case True
    with n ih show ?thesis by simp
  next
    case False
    with ih show ?thesis by simp
  qed
qed

lemma match_at_sound:
  assumes "match_at s = Some m"
  shows "in_pattern m \<and> prefix m s"
proof -
  from assms obtain cs where s: "s = CHR ''['' # cs"
    by (auto simp: match_at_def split: list.splits if_splits)
  from assms s obtain r where d: "dropWhile isspace cs = CHR ''{'' # r"
    by (auto simp: match_at_def split: list.splits if_splits)
  from assms s d obtain m' where l: "lazy_body r = Some m'"
    and m: "m = CHR ''['' # takeWhile isspace cs @ CHR ''{'' # m'"
    by (auto simp: match_at_def)
  from lazy_body_sound[OF l] obtain body ws rest where
    r: "r = body @ CHR ''}'' # ws @ CHR '']'' # rest" and ws: "\<forall>c \<in> set ws. isspace c"
    and m': "m' = body @ CHR ''}'' # ws @ '']''" by blast
  have cs: "cs = takeWhile isspace cs @ CHR ''{'' # r"
    using d takeWhile_dropWhile_id[of isspace cs] by simp
  have w1: "\<forall>c \<in> set (takeWhile isspace cs). isspace c" by (meson set_takeWhileD)
  have "m = ''['' @ takeWhile isspace cs @ ''{'' @ body @ ''}'' @ ws @ '']''"
    using m m' by simp
  then have "in_pattern m" unfolding in_pattern_def using w1 ws by blast
  moreover have "s = m @ rest" using s m m' r cs by (metis append_Cons append_Nil append_assoc)
  ultimately show ?thesis by (simp add: prefix_def)
qed

lemma match_at_complete:
  assumes "in_pattern m"
  shows "\<exists>m'. match_at (m @ post) = Some m' \<and> length m' \<le> length m"
proof -
  from assms obtain ws1 body ws2 where
    m: "m = ''['' @ ws1 @ ''{'' @ body @ ''}'' @ ws2 @ '']''"
    and w1: "\<forall>c \<in> set ws1. isspace c" and w2: "\<forall>c \<in> set ws2. isspace c"
    unfolding in_pattern_def by blast
  let ?r = "body @ CHR ''}'' # ws2 @ CHR '']'' # post"
  have e: "m @ post = CHR ''['' # (ws1 @ CHR ''{'' # ?r)" using m by simp
  from lazy_body_complete[OF w2, of body post] obtain l where
    l: "lazy_body ?r = Some l" "length l \<le> length body + length ws2 + 2" by blast
  have "match_at (m @ post) = Some (CHR ''['' # ws1 @ CHR ''{'' # l)"
    unfolding e match_at_def
    by (simp add: dropWhile_space_append[OF w1] takeWhile_space_append[OF w1] l(1))
  moreover have "length (CHR ''['' # ws1 @ CHR ''{'' # l) \<le> length m" using l(2) m by simp
  ultimately show ?thesis by blast
qed

text \<open>The search returns the leftmost match, and at that position the shortest one.\<close>

lemma re_search_Some:
  "re_search t = Some m \<Longrightarrow>
     \<exists>pre post. t = pre @ m @ post \<and> in_pattern m
       \<and> (\<forall>pre' m' post'. t = pre' @ m' @ post' \<and> in_pattern m' \<longrightarrow>
             length pre < length pre' \<or> (length pre = length pre' \<and> length m \<le> length m'))"
proof (induction t)
  case Nil
  then show ?case by simp
next
  case (Cons c cs)
  show ?case
  proof (cases "match_at (c # cs)")
    case (Some m0)
    with Cons.prems have m0: "m0 = m" by simp
    from match_at_sound[OF Some] m0 obtain post where
      p: "c # cs = m @ post" and ip: "in_pattern m" by (auto simp: prefix_def)
    have "\<forall>pre' m' post'. c # cs = pre' @ m' @ post' \<and> in_pattern m' \<longrightarrow>
             length ([]::string) < length pre' \<or> (length ([]::string) = length pre' \<and> length m \<le> length m')"
    proof (intro allI impI)
      fix pre' m' post'
      assume a: "c # cs = pre' @ m' @ post' \<and> in_pattern m'"
      show "length ([]::string) < length pre' \<or> (length ([]::string) = length pre' \<and> length m \<le> length m')"
      proof (cases pre')
        case Nil
        with a match_at_complete[of m' post'] Some m0 show ?thesis by auto
      next
        case (Cons x xs)
        then show ?thesis by simp
      qed
    qed
    with p ip have "c # cs = [] @ m @ post \<and> in_pattern m
       \<and> (\<forall>pre' m' post'. c # cs = pre' @ m' @ post' \<and> in_pattern m' \<longrightarrow>
             length ([]::string) < length pre' \<or> (length ([]::string) = length pre' \<and> length m \<le> length m'))"
      by simp
    then show ?thesis by blast
  next
    case None
    with Cons.prems have "re_search cs = Some m" by simp
    from Cons.IH[OF this] obtain pre post where
      t: "cs = pre @ m @ post" and ip: "in_pattern m" and
      lm: "\<forall>pre' m' post'. cs = pre' @ m' @ post' \<and> in_pattern m' \<longrightarrow>
             length pre < length pre' \<or> (length pre = length pre' \<and> length m \<le> length m')" by blast
    have "\<forall>pre' m' post'. c # cs = pre' @ m' @ post' \<and> in_pattern m' \<longrightarrow>
             length (c # pre) < length pre' \<or> (length (c # pre) = length pre' \<and> length m \<le> length m')"
    proof (intro allI impI)
      fix pre' m' post'
      assume a: "c # cs = pre' @ m' @ post' \<and> in_pattern m'"
      show "length (c # pre) < length pre' \<or> (length (c # pre) = length pre' \<and> length m \<le> length m')"
      proof (cases pre')
        case Nil
        with a match_at_complete[of m' post'] None show ?thesis by auto
      next
        case (Cons x xs)
        with a have "cs = xs @ m' @ post'" by simp
        with lm a have "length pre < length xs \<or> (length pre = length xs \<and> length m \<le> length m')"
          by blast
        with Cons show ?thesis by simp
      qed
    qed
    with t ip have "c # cs = (c # pre) @ m @ post \<and> in_pattern m \<and>
       (\<forall>pre' m' post'. c # cs = pre' @ m' @ post' \<and> in_pattern m' \<longrightarrow>
             length (c # pre) < length pre' \<or> (length (c # pre) = length pre' \<and> length m \<le> length m'))"
      by simp
    then show ?thesis by blast
  qed
qed

lemma re_search_None:
  "re_search t = None \<longleftrightarrow> \<not> (\<exists>pre m post. t = pre @ m @ post \<and> in_pattern m)"
proof
  assume "re_search t = None"
  then show "\<not> (\<exists>pre m post. t = pre @ m @ post \<and> in_pattern m)"
  proof (induction t)
    case Nil
    then show ?case by (auto simp: in_pattern_def)
  next
    case (Cons c cs)
    then have n: "match_at (c # cs) = None" and r: "re_search cs = None"
      by (auto split: option.splits)
    show ?case
    proof
      assume "\<exists>pre m post. c # cs = pre @ m @ post \<and> in_pattern m"
      then obtain pre m post where a: "c # cs = pre @ m @ post" "in_pattern m" by blast
      show False
      proof (cases pre)
        case Nil
        with a match_at_complete[of m post] n show ?thesis by auto
      next
        case (Cons x xs)
        with a have "cs = xs @ m @ post" by simp
        with Cons.IH[OF r] a(2) show ?thesis by blast
      qed
    qed
  qed
next
  assume a: "\<not> (\<exists>pre m post. t = pre @ m @ post \<and> in_pattern m)"
  show "re_search t = None"
  proof (cases "re_search t")
    case None
    then show ?thesis .
  next
    case (Some m)
    from re_search_Some[OF this] a show ?thesis by blast
  qed
qed

lemma re_search_whole:
  assumes "\<forall>c \<in> set ws1. isspace c" "\<forall>c \<in> set ws2. isspace c"
    and "\<not> (\<exists>p w r. (\<forall>c \<in> set w. isspace c) \<and> body = p @ ''}'' @ w @ '']'' @ r)"
  shows "re_search (''['' @ ws1 @ ''{'' @ body @ ''}'' @ ws2 @ '']'')
           = Some (''['' @ ws1 @ ''{'' @ body @ ''}'' @ ws2 @ '']'')"
proof -
  have "\<not> (\<exists>p w r. (\<forall>c \<in> set w. isspace c) \<and> body = p @ CHR ''}'' # w @ CHR '']'' # r)"
    using assms(3) by simp
  from lazy_body_whole[OF assms(2) this, of "[]"] show ?thesis
    by (simp add: match_at_def dropWhile_space_append[OF assms(1)]
        takeWhile_space_append[OF assms(1)])
qed

lemma no_bracket_no_close:
  "CHR '']'' \<notin> set body \<Longrightarrow>
   \<not> (\<exists>p w r. (\<forall>c \<in> set w. isspace c) \<and> body = p @ ''}'' @ w @ '']'' @ r)"
  by auto

lemma strip_idem [simp]: "strip (strip s) = strip s"
proof -
  define a where "a = dropWhile isspace s"
  define r where "r = rev (dropWhile isspace (rev a))"
  have sr: "strip s = r" by (simp add: strip_def r_def a_def)
  have bk: "dropWhile isspace (rev r) = rev r" by (simp add: r_def)
  have ar: "a = r @ rev (takeWhile isspace (rev a))"
    unfolding r_def by (metis rev_append rev_rev_ident takeWhile_dropWhile_id)
  have fr: "dropWhile isspace r = r"
  proof (cases r)
    case Nil
    then show ?thesis by simp
  next
    case (Cons x xs)
    with ar have "a = x # (xs @ rev (takeWhile isspace (rev a)))" by simp
    then have "a \<noteq> []" and "hd a = x" by (metis list.distinct(1), metis list.sel(1))
    then have "\<not> isspace x" using hd_dropWhile[of isspace s] by (auto simp: a_def)
    with Cons show ?thesis by simp
  qed
  have "strip r = r" by (simp add: strip_def fr bk)
  with sr show ?thesis by simp
qed

lemma strip_Nil [simp]: "strip [] = []"
  by (simp add: strip_def)

lemma remove_markdown_array:
  assumes "strip t = t" and "t = ''['' @ xs @ '']''"
  shows "remove_markdown t = t"
proof -
  have p1: "\<not> prefix ''```json'' t" and p2: "\<not> prefix ''```'' t"
    using assms(2) by simp_all
  have "\<not> suffix ''```'' t"
  proof
    assume "suffix ''```'' t"
    then obtain zs where "t = zs @ ''```''" by (auto simp: suffix_def)
    then have "last t = CHR 0x60" by simp
    moreover have "last t = CHR '']''" using assms(2) by simp
    ultimately show False by simp
  qed
  with p1 p2 show ?thesis by (simp add: remove_markdown_def assms(1))
qed

lemma dropWhile_replicate: "\<not> P c \<Longrightarrow> dropWhile P (replicate n c) = replicate n c"
  by (cases n) simp_all

lemma strip_replicate: "\<not> isspace c \<Longrightarrow> strip (replicate n c) = replicate n c"
  by (simp add: strip_def dropWhile_replicate)

lemma re_search_replicate: "c \<noteq> CHR ''['' \<Longrightarrow> re_search (replicate n c) = None"
  by (induction n) (simp_all add: match_at_def)

lemma remove_markdown_replicate:
  assumes "\<not> isspace c" and "c \<noteq> CHR 0x60"
  shows "remove_markdown (replicate n c) = replicate n c"
proof -
  have p: "\<not> prefix ''```json'' (replicate n c)" "\<not> prefix ''```'' (replicate n c)"
    using assms(2) by (cases n; simp)+
  have "\<not> suffix ''```'' (replicate n c)"
  proof
    assume "suffix ''```'' (replicate n c)"
    then obtain zs where "replicate n c = zs @ ''```''" by (auto simp: suffix_def)
    then have "CHR 0x60 \<in> set (replicate n c)" by (metis in_set_conv_decomp append_Cons)
    with assms(2) show False by auto
  qed
  with p show ?thesis by (simp add: remove_markdown_def strip_replicate[OF assms(1)])
qed

section \<open>Properties of the extraction\<close>

lemma table_parser_simps [simp]:
  "table_parser err [] s = Inl err"
  "table_parser err ((k, v) # tbl) s = (if s = k then Inr v else table_parser err tbl s)"
  by (auto simp: table_parser_def)

lemma demo_library_simps [simp]:
  "json_loads demo_library = table_parser JSONDecodeError
         [(''[{}]'', PList [PDict []]), (''[ {} , {} ]'', PList [PDict [], PDict []]),
          (''7'', PInt 7)]"
  "literal_eval demo_library = table_parser ValueError [(''(1, 2)'', PTuple [PInt 1, PInt 2])]"
  "data_frame demo_library = (\<lambda>v. None)" "to_excel demo_library = (\<lambda>v. None)"
  "save_docx demo_library = (\<lambda>t. None)" "word_report demo_library = (\<lambda>v. None)"
  by (simp_all add: demo_library_def)

lemma tabular_iff: "tabular v \<longleftrightarrow> (\<exists>kvs xs. v = PList (PDict kvs # xs))"
proof (cases v)
  case (PList xs)
  then show ?thesis by (cases xs) (auto simp: tabular_def split: pyval.splits)
qed (simp_all add: tabular_def)

lemma handle_response_no_match:
  "re_search (strip text) = None \<Longrightarrow>
   handle_response L sfx st df text =
     ([Print NoStructuredJson, WriteText (st @ ''_RAW.txt'') (strip text), Print SavedRaw], df, Skipped)"
  by (simp add: handle_response_def)

lemma handle_response_parsed:
  "re_search (strip text) = Some m \<Longrightarrow> json_loads L m = Inr v \<Longrightarrow> serialisable v \<Longrightarrow>
   \<exists>ev df'. handle_response L sfx st df text =
      (DumpJson (st @ sfx @ ''.json'') v # Print SavedJson # ev, df', Completed)"
  by (cases "data_frame L v"; cases "to_excel L v"; cases "tabular v")
     (auto simp: handle_response_def json_dump_def Let_def raw_fallback_def)

lemma array_library_simps [simp]:
  "json_loads array_library = table_parser JSONDecodeError
         [(quoted_array, PList [PDict [(PStr ''a'', PStr ''}]'')]]),
          (''[ {} , {} ]'', PList [PDict [], PDict []])]"
  "literal_eval array_library = table_parser ValueError []"
  by (simp_all add: array_library_def)

lemma extract_first:
  "re_search (strip text) = Some m \<Longrightarrow> loads m = Inr v \<Longrightarrow>
   extract_json_from_response loads lit text = Inr v"
  by (simp add: extract_json_from_response_def first_array_def)

lemma extract_fallback:
  "re_search (strip text) = None \<or> (re_search (strip text) = Some m \<and> loads m = Inl e) \<Longrightarrow>
   extract_json_from_response loads lit text =
     (case loads (remove_markdown (strip text)) of
        Inr v \<Rightarrow> Inr v
      | Inl e \<Rightarrow>
          if e = JSONDecodeError then
            (case lit (remove_markdown (strip text)) of Inr v \<Rightarrow> Inr v | Inl e' \<Rightarrow> Inr PNone)
          else Inl e)"
  by (auto simp: extract_json_from_response_def first_array_def Let_def)

lemma handle_response_cut:
  "re_search (strip text) = Some m \<Longrightarrow> json_loads L m = Inl e \<Longrightarrow>
   handle_response L sfx st df text = (raw_fallback st (strip text), df, Completed)"
  by (simp add: handle_response_def)

lemma extract_whole_text:
  assumes "strip text = ''['' @ xs @ '']''"
    and "loads (strip text) = Inr v"
    and "\<forall>m. re_search (strip text) = Some m \<and> m \<noteq> strip text \<longrightarrow> (\<exists>e. loads m = Inl e)"
  shows "extract_json_from_response loads lit text = Inr v"
proof (cases "re_search (strip text)")
  case None
  have "remove_markdown (strip text) = strip text"
    by (rule remove_markdown_array[OF strip_idem assms(1)])
  with None assms(2) show ?thesis
    by (simp add: extract_json_from_response_def first_array_def)
next
  case (Some m)
  show ?thesis
  proof (cases "m = strip text")
    case True
    with Some assms(2) show ?thesis by (simp add: extract_first)
  next
    case False
    with Some assms(3) obtain e where e: "loads m = Inl e" by blast
    have r: "remove_markdown (strip text) = strip text"
      by (rule remove_markdown_array[OF strip_idem assms(1)])
    show ?thesis
      using extract_fallback[of "text" m loads e lit] Some e r assms(2) by simp
  qed
qed




lemma extract_raises:
  assumes "re_search (strip text) = None \<or> (re_search (strip text) = Some m \<and> loads m = Inl e)"
    and "loads (remove_markdown (strip text)) = Inl x" and "x \<noteq> JSONDecodeError"
  shows "extract_json_from_response loads lit text = Inl x"
  using extract_fallback[of "text" m loads e lit] assms by simp

text \<open>
  C7, as the code has it. (1) The match of the search, which is the leftmost text of the
  pattern and the shortest one at its position, is parsed as JSON, and its value is the
  result. (2) With no match, or a match whose parse raised any exception, the text
  without its code fences is parsed as JSON. (3) When that raises
  \<^verbatim>\<open>JSONDecodeError\<close>, the same text is parsed as a Python literal; when it raises
  any other exception, that exception leaves the routine: there is no literal parse and
  no result. (4) When the literal parse raises, the result is \<^verbatim>\<open>None\<close>.
\<close>

theorem extraction_fallback_order:
  "(re_search (strip text) = Some m \<longrightarrow>
      (\<exists>pre post. strip text = pre @ m @ post \<and> in_pattern m
         \<and> (\<forall>pre' m' post'. strip text = pre' @ m' @ post' \<and> in_pattern m' \<longrightarrow>
               length pre < length pre' \<or> (length pre = length pre' \<and> length m \<le> length m')))
      \<and> (loads m = Inr v \<longrightarrow> extract_json_from_response loads lit text = Inr v))
   \<and> (re_search (strip text) = None \<or> (re_search (strip text) = Some m \<and> loads m = Inl e) \<longrightarrow>
        (loads (remove_markdown (strip text)) = Inr v \<longrightarrow>
           extract_json_from_response loads lit text = Inr v)
      \<and> (loads (remove_markdown (strip text)) = Inl JSONDecodeError \<longrightarrow>
           (lit (remove_markdown (strip text)) = Inr v \<longrightarrow>
              extract_json_from_response loads lit text = Inr v)
         \<and> (lit (remove_markdown (strip text)) = Inl e' \<longrightarrow>
              extract_json_from_response loads lit text = Inr PNone))
      \<and> (loads (remove_markdown (strip text)) = Inl x \<and> x \<noteq> JSONDecodeError \<longrightarrow>
           extract_json_from_response loads lit text = Inl x))"
proof (intro conjI impI)
  assume "re_search (strip text) = Some m"
  from re_search_Some[OF this]
  show "\<exists>pre post. strip text = pre @ m @ post \<and> in_pattern m
         \<and> (\<forall>pre' m' post'. strip text = pre' @ m' @ post' \<and> in_pattern m' \<longrightarrow>
               length pre < length pre' \<or> (length pre = length pre' \<and> length m \<le> length m'))" .
next
  assume "re_search (strip text) = Some m" "loads m = Inr v"
  then show "extract_json_from_response loads lit text = Inr v" by (rule extract_first)
next
  assume a: "re_search (strip text) = None \<or> (re_search (strip text) = Some m \<and> loads m = Inl e)"
    and b: "loads (remove_markdown (strip text)) = Inr v"
  show "extract_json_from_response loads lit text = Inr v"
    using extract_fallback[of "text" m loads e lit] a b by simp
next
  assume a: "re_search (strip text) = None \<or> (re_search (strip text) = Some m \<and> loads m = Inl e)"
    and b: "loads (remove_markdown (strip text)) = Inl JSONDecodeError"
    and c: "lit (remove_markdown (strip text)) = Inr v"
  show "extract_json_from_response loads lit text = Inr v"
    using extract_fallback[of "text" m loads e lit] a b c by simp
next
  assume a: "re_search (strip text) = None \<or> (re_search (strip text) = Some m \<and> loads m = Inl e)"
    and b: "loads (remove_markdown (strip text)) = Inl JSONDecodeError"
    and c: "lit (remove_markdown (strip text)) = Inl e'"
  show "extract_json_from_response loads lit text = Inr PNone"
    using extract_fallback[of "text" m loads e lit] a b c by simp
next
  assume a: "re_search (strip text) = None \<or> (re_search (strip text) = Some m \<and> loads m = Inl e)"
    and b: "loads (remove_markdown (strip text)) = Inl x \<and> x \<noteq> JSONDecodeError"
  show "extract_json_from_response loads lit text = Inl x"
    using extract_raises[of "text" m loads e x lit] a b by blast
qed

lemma digits_text:
  "strip (replicate 4301 CHR ''1'') = replicate 4301 CHR ''1''"
  "re_search (replicate 4301 CHR ''1'') = None"
  "remove_markdown (replicate 4301 CHR ''1'') = replicate 4301 CHR ''1''"
  by (simp_all add: strip_replicate re_search_replicate remove_markdown_replicate isspace_def)

lemma digit_limit_library_simps:
  "json_loads digit_limit_library (replicate 4301 CHR ''1'') = Inl ValueError"
  by (simp add: digit_limit_library_def)

theorem extraction_fallback_order_witness:
  "extract_json_from_response (json_loads demo_library) (literal_eval demo_library)
      ''see [{}] and [{x}]'' = Inr (PList [PDict []])
   \<and> extract_json_from_response (json_loads demo_library) (literal_eval demo_library)
      ''```json 7 ```'' = Inr (PInt 7)
   \<and> extract_json_from_response (json_loads demo_library) (literal_eval demo_library)
      ''```(1, 2)```'' = Inr (PTuple [PInt 1, PInt 2])
   \<and> extract_json_from_response (json_loads demo_library) (literal_eval demo_library)
      ''[{x}] or [{}]'' = Inr PNone
   \<and> extract_json_from_response (json_loads digit_limit_library)
        (literal_eval digit_limit_library) (replicate 4301 CHR ''1'') = Inl ValueError"
proof -
  let ?J = "json_loads demo_library" and ?L = "literal_eval demo_library"
  have r1: "re_search (strip ''see [{}] and [{x}]'') = Some ''[{}]''" by code_simp
  have r2: "re_search (strip ''```json 7 ```'') = None" by code_simp
  have m2: "remove_markdown (strip ''```json 7 ```'') = ''7''" by code_simp
  have r3: "re_search (strip ''```(1, 2)```'') = None" by code_simp
  have m3: "remove_markdown (strip ''```(1, 2)```'') = ''(1, 2)''" by code_simp
  have r4: "re_search (strip ''[{x}] or [{}]'') = Some ''[{x}]''" by code_simp
  have m4: "remove_markdown (strip ''[{x}] or [{}]'') = ''[{x}] or [{}]''" by code_simp
  have a: "extract_json_from_response ?J ?L ''see [{}] and [{x}]'' = Inr (PList [PDict []])"
    using extraction_fallback_order
      [of "''see [{}] and [{x}]''" "''[{}]''" ?J "PList [PDict []]" ?L JSONDecodeError ValueError
          ValueError]
      r1 by simp
  have b: "extract_json_from_response ?J ?L ''```json 7 ```'' = Inr (PInt 7)"
    using extraction_fallback_order
      [of "''```json 7 ```''" "[]" ?J "PInt 7" ?L JSONDecodeError ValueError ValueError]
      r2 m2 by simp
  have c: "extract_json_from_response ?J ?L ''```(1, 2)```'' = Inr (PTuple [PInt 1, PInt 2])"
    using extraction_fallback_order
      [of "''```(1, 2)```''" "[]" ?J "PTuple [PInt 1, PInt 2]" ?L JSONDecodeError ValueError
          ValueError]
      r3 m3 by simp
  have d: "extract_json_from_response ?J ?L ''[{x}] or [{}]'' = Inr PNone"
    using extraction_fallback_order
      [of "''[{x}] or [{}]''" "''[{x}]''" ?J PNone ?L JSONDecodeError ValueError ValueError]
      r4 m4 by simp
  have r5: "re_search (strip (replicate 4301 CHR ''1'')) = None"
    by (simp only: digits_text)
  have m5: "json_loads digit_limit_library (remove_markdown (strip (replicate 4301 CHR ''1'')))
        = Inl ValueError"
    by (simp only: digits_text digit_limit_library_simps)
  have e: "extract_json_from_response (json_loads digit_limit_library)
        (literal_eval digit_limit_library) (replicate 4301 CHR ''1'') = Inl ValueError"
    using extraction_fallback_order
      [of "replicate 4301 CHR ''1''" "[]" "json_loads digit_limit_library" PNone
          "literal_eval digit_limit_library" JSONDecodeError SyntaxError ValueError]
      r5 m5 by simp
  from a b c d e show ?thesis by blast
qed

text \<open>
  C7 as stated fails at step (3) on a text of 4301 digits: \<^verbatim>\<open>json.loads\<close> refuses
  an integer of more than 4300 digits with \<^verbatim>\<open>ValueError\<close>, which the handler for
  \<^verbatim>\<open>JSONDecodeError\<close> does not catch. The routine raises: the literal parse is not
  attempted and the result is not \<^verbatim>\<open>None\<close>.
\<close>

theorem direct_parse_failure_raises_counterexample:
  "re_search (strip (replicate 4301 CHR ''1'')) = None
   \<and> json_loads digit_limit_library (remove_markdown (strip (replicate 4301 CHR ''1'')))
        = Inl ValueError
   \<and> extract_json_from_response (json_loads digit_limit_library)
        (literal_eval digit_limit_library) (replicate 4301 CHR ''1'') = Inl ValueError
   \<and> extract_json_from_response (json_loads digit_limit_library)
        (literal_eval digit_limit_library) (replicate 4301 CHR ''1'') \<noteq> Inr PNone"
proof -
  have a: "re_search (strip (replicate 4301 CHR ''1'')) = None"
    by (simp only: digits_text)
  have b: "json_loads digit_limit_library (remove_markdown (strip (replicate 4301 CHR ''1'')))
        = Inl ValueError"
    by (simp only: digits_text digit_limit_library_simps)
  have c: "extract_json_from_response (json_loads digit_limit_library)
        (literal_eval digit_limit_library) (replicate 4301 CHR ''1'') = Inl ValueError"
    using extract_raises[of "replicate 4301 CHR ''1''" "[]" "json_loads digit_limit_library"
        JSONDecodeError ValueError "literal_eval digit_limit_library"] a b
    by simp
  from a b c show ?thesis by simp
qed

lemma report_response_none:
  assumes "extract_json_from_response (json_loads L) (literal_eval L) (strip text) = Inr PNone"
  shows "report_response L st text =
           ([Print JsonParsingError, WriteText (st @ ''_analysis.json'') (strip text)], Skipped)"
proof (cases "text = []")
  case True
  with assms show ?thesis by (simp add: report_response_def)
next
  case False
  with assms show ?thesis by (simp add: report_response_def)
qed

text \<open>
  C6, as the code has it. When the stripped response text contains no text of the
  bracketed pattern, the two extraction scripts write no structured artifact and write
  the stripped text, unchanged, to the raw file. In the report script the same holds when
  moreover the direct parse of the text without its code fences raises
  \<^verbatim>\<open>JSONDecodeError\<close> and the literal parse raises or returns \<^verbatim>\<open>None\<close>: the
  extraction yields \<^verbatim>\<open>None\<close> and the stripped text goes to the analysis file.
\<close>

theorem no_array_keeps_stripped_text:
  "(\<not> (\<exists>pre m post. strip text = pre @ m @ post \<and> in_pattern m) \<longrightarrow>
      handle_response L sfx st df text =
        ([Print NoStructuredJson, WriteText (st @ ''_RAW.txt'') (strip text), Print SavedRaw],
         df, Skipped))
   \<and> (\<not> (\<exists>pre m post. strip text = pre @ m @ post \<and> in_pattern m)
        \<and> json_loads L (remove_markdown (strip text)) = Inl JSONDecodeError
        \<and> (literal_eval L (remove_markdown (strip text)) = Inr PNone
             \<or> (\<exists>e. literal_eval L (remove_markdown (strip text)) = Inl e)) \<longrightarrow>
      extract_json_from_response (json_loads L) (literal_eval L) text = Inr PNone
      \<and> report_response L st text =
          ([Print JsonParsingError, WriteText (st @ ''_analysis.json'') (strip text)], Skipped))"
proof (intro conjI impI)
  assume "\<not> (\<exists>pre m post. strip text = pre @ m @ post \<and> in_pattern m)"
  then have "re_search (strip text) = None" by (simp add: re_search_None)
  then show "handle_response L sfx st df text =
        ([Print NoStructuredJson, WriteText (st @ ''_RAW.txt'') (strip text), Print SavedRaw],
         df, Skipped)" by (rule handle_response_no_match)
next
  assume a: "\<not> (\<exists>pre m post. strip text = pre @ m @ post \<and> in_pattern m)
        \<and> json_loads L (remove_markdown (strip text)) = Inl JSONDecodeError
        \<and> (literal_eval L (remove_markdown (strip text)) = Inr PNone
             \<or> (\<exists>e. literal_eval L (remove_markdown (strip text)) = Inl e))"
  then have n: "re_search (strip text) = None" by (simp add: re_search_None)
  have x: "\<And>t. strip t = strip text \<Longrightarrow>
     extract_json_from_response (json_loads L) (literal_eval L) t = Inr PNone"
    using a n by (auto simp: extract_json_from_response_def first_array_def Let_def)
  from x[of "text"] show "extract_json_from_response (json_loads L) (literal_eval L) text = Inr PNone"
    by simp
  from x[of "strip text"] show "report_response L st text =
          ([Print JsonParsingError, WriteText (st @ ''_analysis.json'') (strip text)], Skipped)"
    by (simp add: report_response_none)
qed

theorem no_array_keeps_stripped_text_witness:
  "handle_response demo_library ''_energy_actions'' ''A'' False '' no data ''
      = ([Print NoStructuredJson, WriteText ''A_RAW.txt'' ''no data'', Print SavedRaw], False, Skipped)
   \<and> extract_json_from_response (json_loads demo_library) (literal_eval demo_library) '' no data ''
      = Inr PNone
   \<and> report_response demo_library ''A'' '' no data ''
      = ([Print JsonParsingError, WriteText ''A_analysis.json'' ''no data''], Skipped)"
proof -
  have s: "strip '' no data '' = ''no data''" by code_simp
  have "re_search ''no data'' = None" by code_simp
  then have n: "\<not> (\<exists>pre m post. strip '' no data '' = pre @ m @ post \<and> in_pattern m)"
    unfolding s re_search_None .
  have m: "remove_markdown ''no data'' = ''no data''" by code_simp
  show ?thesis
    using no_array_keeps_stripped_text
      [of "'' no data ''" demo_library "''_energy_actions''" "''A''" False] n
    by (simp add: s m)
qed

text \<open>
  C6 as stated fails twice. The raw file holds the stripped text, not the response text
  byte for byte; and in the report script a text with no bracketed array and no valid
  JSON that is a Python literal is extracted, so that no fallback artifact is written.
\<close>

theorem raw_text_byte_for_byte_counterexample:
  "re_search (strip '' no data '') = None
   \<and> handle_response demo_library ''_energy_actions'' ''A'' False '' no data ''
        = ([Print NoStructuredJson, WriteText ''A_RAW.txt'' ''no data'', Print SavedRaw],
           False, Skipped)
   \<and> ''no data'' \<noteq> '' no data ''
   \<and> re_search (strip ''(1, 2)'') = None
   \<and> json_loads demo_library ''(1, 2)'' = Inl JSONDecodeError
   \<and> json_loads demo_library (remove_markdown (strip ''(1, 2)'')) = Inl JSONDecodeError
   \<and> extract_json_from_response (json_loads demo_library) (literal_eval demo_library) ''(1, 2)''
        = Inr (PTuple [PInt 1, PInt 2])
   \<and> report_response demo_library ''A'' ''(1, 2)''
        = ([DumpJson ''A_analysis.json'' (PTuple [PInt 1, PInt 2]), Print SavedJson,
            Print NotTabular], Completed)"
proof -
  have a: "re_search (strip '' no data '') = None" by code_simp
  have a': "handle_response demo_library ''_energy_actions'' ''A'' False '' no data ''
        = ([Print NoStructuredJson, WriteText ''A_RAW.txt'' ''no data'', Print SavedRaw],
           False, Skipped)" by code_simp
  have a'': "''no data'' \<noteq> '' no data ''" by simp
  have b: "re_search (strip ''(1, 2)'') = None" by code_simp
  have c: "json_loads demo_library ''(1, 2)'' = Inl JSONDecodeError" by code_simp
  have d: "json_loads demo_library (remove_markdown (strip ''(1, 2)'')) = Inl JSONDecodeError"
    by code_simp
  have e: "extract_json_from_response (json_loads demo_library) (literal_eval demo_library) ''(1, 2)''
        = Inr (PTuple [PInt 1, PInt 2])" by code_simp
  have f: "report_response demo_library ''A'' ''(1, 2)''
        = ([DumpJson ''A_analysis.json'' (PTuple [PInt 1, PInt 2]), Print SavedJson,
            Print NotTabular], Completed)" by code_simp
  from a a' a'' b c d e f show ?thesis by blast
qed

lemma handle_response_excel:
  assumes "ToExcel f v \<in> set (fst (handle_response L sfx st df text))"
  shows "tabular v"
proof (cases "re_search (strip text)")
  case None
  with assms show ?thesis by (simp add: handle_response_def)
next
  case (Some m)
  show ?thesis
  proof (cases "json_loads L m")
    case (Inl e)
    with Some assms show ?thesis by (simp add: handle_response_def raw_fallback_def)
  next
    case (Inr data)
    with Some assms show ?thesis
      by (cases "json_dump data"; cases "tabular data"; cases "data_frame L data";
          cases "to_excel L data")
         (auto simp: handle_response_def raw_fallback_def Let_def)
  qed
qed

lemma handle_response_not_tabular:
  "re_search (strip text) = Some m \<Longrightarrow> json_loads L m = Inr v \<Longrightarrow> serialisable v \<Longrightarrow>
   \<not> tabular v \<Longrightarrow>
   handle_response L sfx st df text =
     ([DumpJson (st @ sfx @ ''.json'') v, Print SavedJson, Print NotTabular], df, Completed)"
  by (simp add: handle_response_def json_dump_def Let_def)

text \<open>
  C9. An Excel file is written only for a parsed value that is a non-empty list whose
  first element is a dict. For any other value that was parsed and saved as JSON, the
  JSON file and the notice are all there is: no Excel file, no raw file.
\<close>

theorem excel_only_for_list_of_dicts:
  "(ToExcel f v \<in> set (fst (handle_response L sfx st df text)) \<longrightarrow>
      (\<exists>kvs xs. v = PList (PDict kvs # xs)))
   \<and> (re_search (strip text) = Some m \<and> json_loads L m = Inr v \<and> serialisable v
        \<and> \<not> (\<exists>kvs xs. v = PList (PDict kvs # xs)) \<longrightarrow>
      handle_response L sfx st df text =
        ([DumpJson (st @ sfx @ ''.json'') v, Print SavedJson, Print NotTabular], df, Completed))"
  using handle_response_excel[of f v L sfx st df "text"]
    handle_response_not_tabular[of "text" m L v sfx st df]
  unfolding tabular_iff by blast

theorem excel_only_for_list_of_dicts_witness:
  "ToExcel ''A_energy_actions.xlsx'' (PList [PDict []])
      \<in> set (fst (handle_response demo_library ''_energy_actions'' ''A'' False ''[{}]''))
   \<and> (\<exists>kvs xs. PList [PDict []] = PList (PDict kvs # xs))
   \<and> handle_response (mock_library (PList [])) ''_energy_actions'' ''A'' False ''[{}]''
       = ([DumpJson ''A_energy_actions.json'' (PList []), Print SavedJson, Print NotTabular],
          False, Completed)"
proof -
  have a: "ToExcel ''A_energy_actions.xlsx'' (PList [PDict []])
      \<in> set (fst (handle_response demo_library ''_energy_actions'' ''A'' False ''[{}]''))"
    by code_simp
  have r: "re_search (strip ''[{}]'') = Some ''[{}]''" by code_simp
  have l: "json_loads (mock_library (PList [])) ''[{}]'' = Inr (PList [])"
    by (simp add: mock_library_def)
  from a excel_only_for_list_of_dicts
      [of "''A_energy_actions.xlsx''" "PList [PDict []]" demo_library "''_energy_actions''" "''A''"
          False "''[{}]''"]
  have b: "\<exists>kvs xs. PList [PDict []] = PList (PDict kvs # xs)" by blast
  from r l excel_only_for_list_of_dicts
      [of "''A_energy_actions.xlsx''" "PList []" "mock_library (PList [])" "''_energy_actions''" "''A''"
          False "''[{}]''" "''[{}]''"]
  have c: "handle_response (mock_library (PList [])) ''_energy_actions'' ''A'' False ''[{}]''
       = ([DumpJson ''A_energy_actions.json'' (PList []), Print SavedJson, Print NotTabular],
          False, Completed)" by simp
  from a b c show ?thesis by blast
qed

section \<open>Properties of the per-document pipeline\<close>

lemma polls_no_call [simp]:
  "Delete \<notin> set (polls n)" "Generate \<notin> set (polls n)"
  by (induction n) (simp_all add: polls_def)

lemma handle_response_calls:
  "Generate \<notin> set (fst (handle_response L sfx st df text))"
  "Delete \<notin> set (fst (handle_response L sfx st df text))"
proof -
  have "Generate \<notin> set (fst (handle_response L sfx st df text))
      \<and> Delete \<notin> set (fst (handle_response L sfx st df text))"
  proof (cases "re_search (strip text)")
    case None
    then show ?thesis by (simp add: handle_response_def)
  next
    case (Some m)
    show ?thesis
    proof (cases "json_loads L m")
      case (Inl e)
      with Some show ?thesis by (simp add: handle_response_def raw_fallback_def)
    next
      case (Inr data)
      with Some show ?thesis
        by (cases "json_dump data"; cases "tabular data"; cases "data_frame L data";
            cases "to_excel L data")
           (auto simp: handle_response_def raw_fallback_def Let_def)
    qed
  qed
  then show "Generate \<notin> set (fst (handle_response L sfx st df text))"
    "Delete \<notin> set (fst (handle_response L sfx st df text))" by simp_all
qed

lemma except_handler_calls:
  "Generate \<notin> set (fst (except_handler df e))" "Delete \<notin> set (fst (except_handler df e))"
  by (simp_all add: except_handler_def)

lemma finally_cleanup_calls:
  "Generate \<notin> set (finally_cleanup d bound k)"
  "count_list (finally_cleanup d bound k) Delete = (if bound then 1 else 0)"
  by (auto simp: finally_cleanup_def split: option.splits)

text \<open>
  C10. When the upload call raises, \<^verbatim>\<open>pdf_file\<close> is still \<^verbatim>\<open>None\<close>: the iteration
  ends with a trace that holds the upload attempt and no query, no completion request
  and no delete call.
\<close>

theorem no_delete_without_handle:
  assumes "upload_file d = Inl e"
  shows "\<exists>tr oc. process_document L sfx d df = Some (tr, df, oc)
           \<and> Delete \<notin> set tr \<and> GetFile \<notin> set tr \<and> Generate \<notin> set tr
           \<and> Upload (stem d) \<in> set tr"
  using assms
  by (simp add: process_document_def try_body_def except_handler_def finally_cleanup_def)

theorem no_delete_without_handle_witness:
  "upload_file doc_upload_fails = Inl ApiError
   \<and> (\<exists>tr oc. process_document demo_library ''_energy_actions'' doc_upload_fails True
                  = Some (tr, True, oc)
           \<and> Delete \<notin> set tr \<and> GetFile \<notin> set tr \<and> Generate \<notin> set tr
           \<and> Upload (stem doc_upload_fails) \<in> set tr)"
proof -
  have u: "upload_file doc_upload_fails = Inl ApiError" by (simp add: doc_upload_fails_def)
  from u no_delete_without_handle[OF u, of demo_library "''_energy_actions''" True]
  show ?thesis by blast
qed

text \<open>
  C4. A file that is \<^verbatim>\<open>PROCESSING\<close> at upload and at the first \<open>n\<close> queries and
  \<^verbatim>\<open>ACTIVE\<close> at the next one: the iteration ends; its trace is the upload, \<open>n + 1\<close>
  rounds of sleep and query, then the one completion request, then events among which
  there is no other completion request.
\<close>

theorem one_completion_after_active:
  assumes "upload_file d = Inr PROCESSING"
    and "\<forall>i<n. get_file d i = Inr PROCESSING"
    and "get_file d n = Inr ACTIVE"
  shows "\<exists>ev df' oc. process_document L sfx d df
            = Some ([Upload (stem d), Print Uploaded] @ polls (Suc n) @ Generate # ev, df', oc)
          \<and> Generate \<notin> set ev"
proof -
  have p: "poll (get_file d) 0 PROCESSING [Upload (stem d), Print Uploaded]
             = Some (Inr ACTIVE, [Upload (stem d), Print Uploaded] @ polls (Suc n))"
    using poll_run[of n "get_file d" 0 "[Upload (stem d), Print Uploaded]"] assms(2,3) by simp
  show ?thesis
  proof (cases "generate_content d")
    case (Inl e)
    then have "process_document L sfx d df
        = Some ([Upload (stem d), Print Uploaded] @ polls (Suc n) @
                  Generate # (fst (except_handler df e) @ finally_cleanup d True 0),
                df, snd (except_handler df e))"
      by (simp add: process_document_def try_body_def assms(1) p split: prod.splits)
    moreover have "Generate \<notin> set (fst (except_handler df e) @ finally_cleanup d True 0)"
      by (simp add: except_handler_calls finally_cleanup_calls)
    ultimately show ?thesis by blast
  next
    case (Inr t)
    obtain ev df' oc where h: "handle_response L sfx (stem d) df t = (ev, df', oc)"
      by (cases "handle_response L sfx (stem d) df t") auto
    obtain tr2 oc2 where x: "(case oc of Raised e \<Rightarrow> except_handler df' e | _ \<Rightarrow> ([], oc)) = (tr2, oc2)"
      by (cases "(case oc of Raised e \<Rightarrow> except_handler df' e | _ \<Rightarrow> ([], oc))") auto
    have g1: "Generate \<notin> set ev" using handle_response_calls(1)[of L sfx "stem d" df t] h by simp
    have g2: "Generate \<notin> set tr2"
    proof (cases oc)
      case (Raised e)
      with x have "tr2 = fst (except_handler df' e)" by simp
      then show ?thesis by (simp add: except_handler_calls)
    qed (use x in auto)
    have "process_document L sfx d df
        = Some ([Upload (stem d), Print Uploaded] @ polls (Suc n) @
                  Generate # (ev @ tr2 @ finally_cleanup d True 0), df', oc2)"
      by (simp add: process_document_def try_body_def assms(1) p Inr h x)
    moreover have "Generate \<notin> set (ev @ tr2 @ finally_cleanup d True 0)"
      using g1 g2 by (simp add: finally_cleanup_calls)
    ultimately show ?thesis by blast
  qed
qed

theorem one_completion_after_active_witness:
  "\<exists>ev df' oc. process_document demo_library ''_energy_actions'' doc_ready False
            = Some ([Upload ''A'', Print Uploaded, Sleep 5, GetFile, Sleep 5, GetFile,
                     Sleep 5, GetFile, Generate] @ ev, df', oc)
          \<and> Generate \<notin> set ev"
proof -
  have a: "upload_file doc_ready = Inr PROCESSING" by (simp add: doc_ready_def)
  have b: "\<forall>i<2. get_file doc_ready i = Inr PROCESSING" by (simp add: doc_ready_def)
  have c: "get_file doc_ready 2 = Inr ACTIVE" by (simp add: doc_ready_def)
  have s: "stem doc_ready = ''A''" by (simp add: doc_ready_def)
  from one_completion_after_active[OF a b c, of demo_library "''_energy_actions''" False]
  show ?thesis by (simp add: s polls_def numeral_3_eq_3)
qed

lemma handle_response_outcome:
  "snd (snd (handle_response L sfx st df text)) \<noteq> Raised e"
  "df \<Longrightarrow> fst (snd (handle_response L sfx st df text))"
proof -
  have "snd (snd (handle_response L sfx st df text)) \<noteq> Raised e
      \<and> (df \<longrightarrow> fst (snd (handle_response L sfx st df text)))"
  proof (cases "re_search (strip text)")
    case None
    then show ?thesis by (simp add: handle_response_def)
  next
    case (Some m)
    show ?thesis
    proof (cases "json_loads L m")
      case (Inl e)
      with Some show ?thesis by (simp add: handle_response_def)
    next
      case (Inr data)
      with Some show ?thesis
        by (cases "json_dump data"; cases "tabular data"; cases "data_frame L data";
            cases "to_excel L data")
           (auto simp: handle_response_def Let_def)
    qed
  qed
  then show "snd (snd (handle_response L sfx st df text)) \<noteq> Raised e"
    "df \<Longrightarrow> fst (snd (handle_response L sfx st df text))" by simp_all
qed

lemma try_body_keeps_df:
  assumes "try_body L sfx d True = Some (tr, bound, df', oc)"
  shows "df'"
proof (cases "upload_file d")
  case (Inl e)
  with assms show ?thesis by (simp add: try_body_def)
next
  case (Inr st0)
  show ?thesis
  proof (cases "poll (get_file d) 0 st0 [Upload (stem d), Print Uploaded]")
    case None
    with Inr assms show ?thesis by (simp add: try_body_def)
  next
    case (Some y)
    obtain r tr1 where y: "y = (r, tr1)" by (cases y) auto
    show ?thesis
    proof (cases r)
      case (Inl e)
      with Inr Some y assms show ?thesis by (simp add: try_body_def)
    next
      case r: (Inr st)
      show ?thesis
      proof (cases "st = ACTIVE")
        case False
        with Inr Some y r assms show ?thesis by (simp add: try_body_def)
      next
        case True
        show ?thesis
        proof (cases "generate_content d")
          case (Inl e)
          with Inr Some y r True assms show ?thesis by (simp add: try_body_def)
        next
          case g: (Inr t)
          obtain ev b oc' where h: "handle_response L sfx (stem d) True t = (ev, b, oc')"
            by (cases "handle_response L sfx (stem d) True t") auto
          have "b" using handle_response_outcome(2)[of True L sfx "stem d" t] h by simp
          with Inr Some y r True g h assms show ?thesis by (simp add: try_body_def)
        qed
      qed
    qed
  qed
qed

text \<open>
  With \<^verbatim>\<open>df\<close> bound, no exception leaves an iteration: the handler prints and the
  loop goes on to the next document.
\<close>

lemma bound_df_catches:
  assumes "process_document L sfx d True = Some (tr, df', oc)"
  shows "df' \<and> oc \<noteq> Raised e"
proof -
  from assms obtain tr1 bound oc1 where
    t: "try_body L sfx d True = Some (tr1, bound, df', oc1)"
    by (auto simp: process_document_def split: option.splits prod.splits)
  have d: "df'" using try_body_keeps_df[OF t] .
  from assms t d have "oc = (case oc1 of Raised e \<Rightarrow> Completed | _ \<Rightarrow> oc1)"
    by (cases oc1) (auto simp: process_document_def except_handler_def)
  then have "oc \<noteq> Raised e" by (cases oc1) auto
  with d show ?thesis by simp
qed

lemma unbound_df_raises:
  assumes "upload_file d = Inl e"
  shows "process_document L sfx d False = Some ([Upload (stem d)], False, Raised UnboundLocalError)"
  using assms
  by (simp add: process_document_def try_body_def except_handler_def finally_cleanup_def)

text \<open>
  C2, at a batch of two documents: the upload of the first raises while \<^verbatim>\<open>df\<close> is not
  yet bound. The handler's \<^verbatim>\<open>print(df)\<close> raises \<^verbatim>\<open>UnboundLocalError\<close>, which
  leaves \<^verbatim>\<open>getScores\<close>; the second document is never uploaded. Once an earlier
  document has bound \<^verbatim>\<open>df\<close>, the same failure is logged and the batch goes on.
\<close>

theorem first_failure_aborts_batch:
  "getScores demo_library ''_energy_actions''
      \<lparr>configure = None, is_dir = True, pdf_files = [doc_upload_fails, doc_ready]\<rparr>
     = Some ([Print Processing, Upload ''B''], Some UnboundLocalError)
   \<and> getScores demo_library ''_energy_actions''
      \<lparr>configure = None, is_dir = True, pdf_files = [doc_ready, doc_upload_fails]\<rparr>
     = Some ([Print Processing, Upload ''A'', Print Uploaded, Sleep 5, GetFile, Sleep 5, GetFile,
              Sleep 5, GetFile, Generate,
              DumpJson ''A_energy_actions.json'' (PList [PDict []]), Print SavedJson,
              ToExcel ''A_energy_actions.xlsx'' (PList [PDict []]), Print SavedExcel,
              Delete, Print Deleted,
              Print Processing, Upload ''B'', Print DataFrameDump, Print FileError], None)"
  by code_simp

text \<open>
  C5, at a file that is \<^verbatim>\<open>PROCESSING\<close> at upload and \<^verbatim>\<open>FAILED\<close> at the first
  query. No script makes a completion request. \<^verbatim>\<open>GeminiAPIExtractActions.py\<close> deletes
  the file once; \<^verbatim>\<open>GeminiAPIReport.py\<close> deletes it in the branch and again in the
  \<^verbatim>\<open>finally\<close> block; \<^verbatim>\<open>GHGEmissionPercentage.py\<close> does not delete it.
\<close>

theorem failed_file_cleanup_calls:
  "process_document demo_library ''_energy_actions'' doc_failed False
     = Some ([Upload ''C'', Print Uploaded, Sleep 5, GetFile, Print NotActive,
              Delete, Print Deleted], False, Skipped)
   \<and> report_document demo_library doc_failed
     = Some ([Upload ''C'', Print Uploaded, Sleep 5, GetFile, Print NotActive,
              Delete, Delete, Print CleanupError], Skipped)
   \<and> ghg_document demo_library doc_failed []
     = Some ([Upload ''C'', Sleep 5, GetFile, Print Processing], [])"
  by code_simp

text \<open>
  Where the cleanup is called once: in \<^verbatim>\<open>ExtractEnergyInventoryActions.py\<close> for a
  document whose polling ended with an active file or with a raised query, whatever
  happens afterwards, and in \<^verbatim>\<open>GHGEmissionPercentage.py\<close> for a document whose file
  became active and whose completion request returned a text.
\<close>

lemma count_Delete_poll:
  assumes "poll gf k st tr = Some (r, tr')"
  shows "count_list tr' Delete = count_list tr Delete"
proof -
  from poll_trace[OF assms] obtain n where "tr' = tr @ polls n" by blast
  then show ?thesis by simp
qed

lemma ghg_response_no_delete: "count_list (fst (ghg_response L st text a)) Delete = 0"
  by (auto simp: ghg_response_def split: option.splits sum.splits prod.splits)

lemma energy_upload_raises:
  "upload_file d = Inl e \<Longrightarrow>
   energy_document L d = Some ([Upload (stem d), Print FileError], Completed)"
  by (simp add: energy_document_def energy_try_body_def finally_cleanup_def)

lemma energy_one_delete:
  assumes "upload_file d = Inr st0"
    and "poll (get_file d) 0 st0 [Upload (stem d), Print Uploaded] = Some (r, tr1)"
    and "r = Inr ACTIVE \<or> (\<exists>e. r = Inl e)"
  shows "\<exists>tr oc. energy_document L d = Some (tr, oc) \<and> count_list tr Delete = 1"
proof -
  have c: "count_list tr1 Delete = 0" using count_Delete_poll[OF assms(2)] by simp
  show ?thesis
  proof (cases r)
    case (Inl e)
    then show ?thesis using assms(1,2) c
      by (simp add: energy_document_def energy_try_body_def finally_cleanup_def
            split: option.splits)
  next
    case (Inr st)
    with assms(3) have st: "st = ACTIVE" by auto
    show ?thesis
    proof (cases "generate_content d")
      case (Inl e)
      then show ?thesis using assms(1,2) Inr st c
        by (simp add: energy_document_def energy_try_body_def finally_cleanup_def
              split: option.splits)
    next
      case g: (Inr t)
      then show ?thesis using assms(1,2) Inr st c
        by (cases "save_docx L t"; cases "t = []")
           (simp_all add: energy_document_def energy_try_body_def finally_cleanup_def
              split: option.splits)
    qed
  qed
qed

lemma ghg_one_delete:
  assumes "upload_file d = Inr st0"
    and "poll (get_file d) 0 st0 [Upload (stem d)] = Some (Inr ACTIVE, tr1)"
    and "generate_content d = Inr t"
  shows "\<exists>tr a. ghg_document L d all_data = Some (tr, a) \<and> count_list tr Delete = 1"
proof -
  have c: "count_list tr1 Delete = 0" using count_Delete_poll[OF assms(2)] by simp
  obtain ev a where h: "ghg_response L (stem d) t all_data = (ev, a)"
    by (cases "ghg_response L (stem d) t all_data") auto
  have e: "count_list ev Delete = 0"
    using ghg_response_no_delete[of L "stem d" t all_data] h by simp
  show ?thesis using assms c h e
    by (simp add: ghg_document_def split: option.splits)
qed

text \<open>
  C3, on the failure branches. In \<^verbatim>\<open>ExtractEnergyInventoryActions.py\<close> a file that is
  \<^verbatim>\<open>PROCESSING\<close> at upload and \<^verbatim>\<open>FAILED\<close> at the first query is deleted in the
  branch and again in the \<^verbatim>\<open>finally\<close> block. In \<^verbatim>\<open>GHGEmissionPercentage.py\<close>,
  which has no \<^verbatim>\<open>finally\<close> block, an uploaded file is not deleted when it fails to
  become active, when a query raises, or when the completion request raises.
\<close>

theorem cleanup_calls_on_failure_branches:
  "energy_document demo_library doc_failed
     = Some ([Upload ''C'', Print Uploaded, Sleep 5, GetFile, Print NotActive,
              Delete, Print Deleted, Delete, Print CleanupError], Skipped)
   \<and> ghg_document demo_library doc_failed []
     = Some ([Upload ''C'', Sleep 5, GetFile, Print Processing], [])
   \<and> ghg_document demo_library doc_query_fails []
     = Some ([Upload ''D'', Sleep 5, GetFile, Print FileError], [])
   \<and> ghg_document demo_library doc_completion_fails []
     = Some ([Upload ''E'', Print Processing, Generate, Print FileError], [])"
  by code_simp

end
